theory Spec2Isabelle
  imports Complex_Main "HOL-Library.Multiset" "HOL-Library.Log_Nat"
begin

section \<open>Python values and exceptions\<close>

text \<open>
  The benchmark harness \<^verbatim>\<open>benchmarks/test_all.py\<close> measures wall-clock durations as Python
  floats, that is IEEE 754 doubles. A float is modelled by the rational number it denotes,
  and every float operation rounds its exact result to the nearest double (section
  ``Floats''). Python integers are \<^typ>\<open>int\<close>.

  An exception is a value carrying its message \<^verbatim>\<open>str(e)\<close>. \<open>Interrupt\<close> stands for the
  exceptions that derive from \<^verbatim>\<open>BaseException\<close> but not from \<^verbatim>\<open>Exception\<close>
  (\<^verbatim>\<open>KeyboardInterrupt\<close>, \<^verbatim>\<open>SystemExit\<close>, \<^verbatim>\<open>asyncio.CancelledError\<close>): a handler
  \<^verbatim>\<open>except Exception\<close> does not catch them. \<open>TransportError\<close> stands for what the HTTP
  client raises (connection refused, timeout, DNS failure, ...).
\<close>

datatype exn =
    TransportError string
  | Interrupt string
  | StatisticsError string
  | ZeroDivisionError string
  | ValueError string
  | IndexError string

fun is_Exception :: "exn \<Rightarrow> bool" where
  "is_Exception (Interrupt msg) = False"
| "is_Exception e = True"

fun str_exn :: "exn \<Rightarrow> string" where
  "str_exn (TransportError msg) = msg"
| "str_exn (Interrupt msg) = msg"
| "str_exn (StatisticsError msg) = msg"
| "str_exn (ZeroDivisionError msg) = msg"
| "str_exn (ValueError msg) = msg"
| "str_exn (IndexError msg) = msg"

text \<open>Sequencing of computations that may raise: the first exception is propagated.\<close>

definition ebind :: "exn + 'a \<Rightarrow> ('a \<Rightarrow> exn + 'b) \<Rightarrow> exn + 'b" where
  "ebind m f = (case m of Inl e \<Rightarrow> Inl e | Inr v \<Rightarrow> f v)"

text \<open>
  The values stored in a summary dictionary are Python ints and floats. A dictionary
  literal is an association list in the order the literal is written.
\<close>

datatype pyval = PyInt int | PyFloat rat

type_synonym pydict = "(string \<times> pyval) list"

text \<open>\<^verbatim>\<open>len(xs)\<close>.\<close>

definition len :: "'a list \<Rightarrow> int" where
  "len xs = int (length xs)"

text \<open>\<^verbatim>\<open>xs[i]\<close> on a list: a negative index counts from the end, an index out of range raises.\<close>

definition index :: "'a list \<Rightarrow> int \<Rightarrow> exn + 'a" where
  "index xs i =
     (let k = (if i < 0 then i + len xs else i)
      in if k < 0 \<or> len xs \<le> k then Inl (IndexError ''list index out of range'')
         else Inr (xs ! nat k))"

section \<open>Floats\<close>

text \<open>
  A double is \<open>m * 2 ^ e\<close> with an integer \<open>m\<close> of at most 53 bits and \<open>e \<ge> -1074\<close>.
  \<open>fl x\<close> is the double nearest to the rational \<open>x\<close>, the even one of two nearest (the
  rounding mode of Python's float operations): with \<open>e\<close> the exponent that leaves 53 bits
  before the binary point, or \<open>-1074\<close> for a subnormal result, \<open>x / 2 ^ e\<close> is rounded to an
  integer. Infinities and NaN are not modelled: beyond the largest finite double (about
  \<open>1.8e308\<close>) \<open>fl\<close> keeps rounding to 53 bits where Python overflows.
\<close>

definition round_half_even :: "rat \<Rightarrow> int" where
  "round_half_even y =
     (let f = \<lfloor>y\<rfloor>; r = y - of_int f
      in if r < 1 / 2 then f else if 1 / 2 < r then f + 1 else if even f then f else f + 1)"

text \<open>The integer part of the binary logarithm of a positive rational.\<close>

definition ilog2 :: "rat \<Rightarrow> int" where
  "ilog2 x = (let (p, q) = quotient_of x; k = bitlen p - bitlen q
              in if 2 powi k \<le> x then k else k - 1)"

definition fl :: "rat \<Rightarrow> rat" where
  "fl x =
     (if x = 0 then 0
      else let e = max (- 1074) (ilog2 \<bar>x\<bar> - 52)
           in of_int (round_half_even (x / 2 powi e)) * 2 powi e)"

text \<open>
  The float operations of the harness and of the \<^verbatim>\<open>statistics\<close> module: \<^verbatim>\<open>x + y\<close>,
  \<^verbatim>\<open>x - y\<close>, \<^verbatim>\<open>x * y\<close>, \<^verbatim>\<open>x / y\<close> on floats, and the conversion of an int operand to a
  float.
\<close>

definition float_add :: "rat \<Rightarrow> rat \<Rightarrow> rat" where
  "float_add x y = fl (x + y)"

definition float_sub :: "rat \<Rightarrow> rat \<Rightarrow> rat" where
  "float_sub x y = fl (x - y)"

definition float_mul :: "rat \<Rightarrow> rat \<Rightarrow> rat" where
  "float_mul x y = fl (x * y)"

definition float_of_int :: "int \<Rightarrow> rat" where
  "float_of_int i = fl (of_int i)"

text \<open>
  \<^verbatim>\<open>a / b\<close> with a float operand, and with two int operands (true division, which rounds
  the exact quotient once). A zero divisor raises.
\<close>

definition float_truediv :: "rat \<Rightarrow> rat \<Rightarrow> exn + rat" where
  "float_truediv a b =
     (if b = 0 then Inl (ZeroDivisionError ''float division by zero'') else Inr (fl (a / b)))"

definition int_truediv :: "int \<Rightarrow> int \<Rightarrow> exn + rat" where
  "int_truediv a b =
     (if b = 0 then Inl (ZeroDivisionError ''division by zero'')
      else Inr (fl (of_int a / of_int b)))"

section \<open>The standard library's \<^verbatim>\<open>statistics\<close> functions and \<^verbatim>\<open>min\<close>, \<^verbatim>\<open>max\<close>\<close>

text \<open>
  The aggregation calls \<^verbatim>\<open>statistics.mean\<close>, \<^verbatim>\<open>statistics.median\<close>,
  \<^verbatim>\<open>statistics.quantiles\<close>, \<^verbatim>\<open>min\<close> and \<^verbatim>\<open>max\<close> of the Python standard library.
  They are modelled after CPython's \<^verbatim>\<open>Lib/statistics.py\<close>. \<^verbatim>\<open>sorted\<close> is \<^const>\<open>sort\<close>.
  \<^verbatim>\<open>mean\<close> sums the data exactly, as fractions, divides exactly and converts the quotient
  to a float; \<^verbatim>\<open>median\<close> of an even number of data computes \<^verbatim>\<open>(data[i - 1] + data[i]) / 2\<close>
  in floats.
\<close>

definition mean :: "rat list \<Rightarrow> exn + rat" where
  "mean data =
     (if len data < 1 then Inl (StatisticsError ''mean requires at least one data point'')
      else Inr (fl (sum_list data / of_int (len data))))"

definition median :: "rat list \<Rightarrow> exn + rat" where
  "median data0 =
     (let data = sort data0; n = len data
      in if n = 0 then Inl (StatisticsError ''no median for empty data'')
         else if n mod 2 = 1 then Inr (data ! nat (n div 2))
         else let i = n div 2
              in Inr (fl (float_add (data ! nat (i - 1)) (data ! nat i) / float_of_int 2)))"

text \<open>
  \<^verbatim>\<open>statistics.quantiles(data, n=n)\<close> with its default \<^verbatim>\<open>method='exclusive'\<close>, the only
  method the harness uses. One round of the loop \<^verbatim>\<open>for i in range(1, n)\<close>, on the sorted
  data:
  \<^verbatim>\<open>
      j = i * m // n
      j = 1 if j < 1 else ld-1 if j > ld-1 else j
      delta = i*m - j*n
      interpolated = (data[j - 1] * (n - delta) + data[j] * delta) / n
  \<close>
  with \<^verbatim>\<open>m = ld + 1\<close>. \<open>j\<close> and \<open>delta\<close> are ints; the last line is float arithmetic: two
  products with an int converted to a float, their sum, and the quotient by \<open>n\<close>, each
  rounded. The function has raised before the loop unless \<open>ld \<ge> 2\<close> and \<open>n \<ge> 1\<close>, and the
  clamp keeps both subscripts inside the list.
\<close>

definition cut_index :: "int \<Rightarrow> int \<Rightarrow> int \<Rightarrow> int" where
  "cut_index ld n i =
     (let m = ld + 1; j = i * m div n
      in if j < 1 then 1 else if j > ld - 1 then ld - 1 else j)"

definition cut_delta :: "int \<Rightarrow> int \<Rightarrow> int \<Rightarrow> int" where
  "cut_delta ld n i = (let m = ld + 1; j = cut_index ld n i in i * m - j * n)"

definition cut_point :: "rat list \<Rightarrow> int \<Rightarrow> int \<Rightarrow> rat" where
  "cut_point data n i =
     (let ld = len data; j = cut_index ld n i; delta = cut_delta ld n i
      in fl (float_add (float_mul (data ! nat (j - 1)) (float_of_int (n - delta)))
                       (float_mul (data ! nat j) (float_of_int delta))
             / float_of_int n))"

definition quantiles :: "rat list \<Rightarrow> int \<Rightarrow> exn + rat list" where
  "quantiles data0 n =
     (if n < 1 then Inl (StatisticsError ''n must be at least 1'')
      else let data = sort data0; ld = len data
           in if ld < 2 then Inl (StatisticsError ''must have at least two data points'')
              else Inr (map (cut_point data n) [1..n - 1]))"

text \<open>\<^verbatim>\<open>min(xs)\<close> and \<^verbatim>\<open>max(xs)\<close>: one pass over the list, an empty list raises.\<close>

fun py_min :: "rat list \<Rightarrow> exn + rat" where
  "py_min [] = Inl (ValueError ''min() arg is an empty sequence'')"
| "py_min (x # xs) = Inr (fold min xs x)"

fun py_max :: "rat list \<Rightarrow> exn + rat" where
  "py_max [] = Inl (ValueError ''max() arg is an empty sequence'')"
| "py_max (x # xs) = Inr (fold max xs x)"

section \<open>The single-request probe\<close>

text \<open>
  The dictionary a probe returns is read back by the drivers under the keys
  \<^verbatim>\<open>success\<close> and \<^verbatim>\<open>duration\<close>, which every probe result has; \<^verbatim>\<open>status_code\<close> and
  \<^verbatim>\<open>error\<close> are present in some results only. It is a record whose optional fields are
  \<open>None\<close> when the key is absent.
\<close>

record outcome =
  success :: bool
  duration :: rat
  status_code :: "int option"
  error :: "string option"

text \<open>
  What one probe meets: the network (the GET of a URL raises, or returns a response with a
  status code) and the two readings of \<^verbatim>\<open>time.time()\<close>, before the request and after the
  response or the failure.
\<close>

record probe_world =
  http_get :: "string \<Rightarrow> exn + int"
  clock_before :: rat
  clock_after :: rat

text \<open>\<^verbatim>\<open>test_single_request\<close> (lines 96-116).\<close>

definition test_single_request ::
    "probe_world \<Rightarrow> string \<Rightarrow> string \<Rightarrow> string \<Rightarrow> exn + outcome" where
  "test_single_request w service_name url endpoint =
     (let full_url = url @ endpoint; start = clock_before w
      in case http_get w full_url of
           Inr code \<Rightarrow>
             Inr \<lparr>success = (code = 200), duration = float_sub (clock_after w) start,
                  status_code = Some code, error = None\<rparr>
         | Inl e \<Rightarrow>
             if is_Exception e
             then Inr \<lparr>success = False, duration = float_sub (clock_after w) start,
                       status_code = None, error = Some (str_exn e)\<rparr>
             else Inl e)"

text \<open>The inner \<^verbatim>\<open>make_request\<close> of \<^verbatim>\<open>test_concurrent_async\<close> (lines 169-177).\<close>

definition make_request :: "probe_world \<Rightarrow> string \<Rightarrow> string \<Rightarrow> exn + outcome" where
  "make_request w url endpoint =
     (let req_start = clock_before w
      in case http_get w (url @ endpoint) of
           Inr code \<Rightarrow>
             Inr \<lparr>success = (code = 200), duration = float_sub (clock_after w) req_start,
                  status_code = None, error = None\<rparr>
         | Inl e \<Rightarrow>
             if is_Exception e
             then Inr \<lparr>success = False, duration = float_sub (clock_after w) req_start,
                       status_code = None, error = Some (str_exn e)\<rparr>
             else Inl e)"

section \<open>The result aggregation\<close>

text \<open>
  The tail of \<^verbatim>\<open>test_concurrent_sync\<close> (lines 141-159): from the collected durations, the
  error count and the total time to the summary dictionary. The entries are evaluated in
  the order of the dictionary literal.
\<close>

definition summary_sync :: "rat list \<Rightarrow> int \<Rightarrow> rat \<Rightarrow> exn + pydict" where
  "summary_sync durations errors total_time =
     (if durations = [] then
        Inr [(''total_time'', PyFloat total_time),
             (''errors'', PyInt errors),
             (''success_rate'', PyInt 0)]
      else
        ebind (float_truediv (float_of_int (len durations)) total_time) (\<lambda>rps.
        ebind (mean durations) (\<lambda>mean_latency.
        ebind (median durations) (\<lambda>median_latency.
        ebind (if len durations > 1 then ebind (quantiles durations 20) (\<lambda>q. index q 18)
               else index durations 0) (\<lambda>p95_latency.
        ebind (if len durations > 1 then ebind (quantiles durations 100) (\<lambda>q. index q 98)
               else index durations 0) (\<lambda>p99_latency.
        ebind (py_min durations) (\<lambda>min_latency.
        ebind (py_max durations) (\<lambda>max_latency.
        ebind (int_truediv (len durations) (len durations + errors)) (\<lambda>success_rate.
          Inr [(''total_time'', PyFloat total_time),
               (''requests_per_second'', PyFloat rps),
               (''mean_latency'', PyFloat mean_latency),
               (''median_latency'', PyFloat median_latency),
               (''p95_latency'', PyFloat p95_latency),
               (''p99_latency'', PyFloat p99_latency),
               (''min_latency'', PyFloat min_latency),
               (''max_latency'', PyFloat max_latency),
               (''errors'', PyInt errors),
               (''success_rate'', PyFloat success_rate)])))))))))"

text \<open>The tail of \<^verbatim>\<open>test_concurrent_async\<close> (lines 190-208).\<close>

definition summary_async :: "rat list \<Rightarrow> int \<Rightarrow> rat \<Rightarrow> exn + pydict" where
  "summary_async durations errors total_time =
     (if durations = [] then
        Inr [(''total_time'', PyFloat total_time),
             (''errors'', PyInt errors),
             (''success_rate'', PyInt 0)]
      else
        ebind (float_truediv (float_of_int (len durations)) total_time) (\<lambda>rps.
        ebind (mean durations) (\<lambda>mean_latency.
        ebind (median durations) (\<lambda>median_latency.
        ebind (if len durations > 1 then ebind (quantiles durations 20) (\<lambda>q. index q 18)
               else index durations 0) (\<lambda>p95_latency.
        ebind (if len durations > 1 then ebind (quantiles durations 100) (\<lambda>q. index q 98)
               else index durations 0) (\<lambda>p99_latency.
        ebind (py_min durations) (\<lambda>min_latency.
        ebind (py_max durations) (\<lambda>max_latency.
        ebind (int_truediv (len durations) (len durations + errors)) (\<lambda>success_rate.
          Inr [(''total_time'', PyFloat total_time),
               (''requests_per_second'', PyFloat rps),
               (''mean_latency'', PyFloat mean_latency),
               (''median_latency'', PyFloat median_latency),
               (''p95_latency'', PyFloat p95_latency),
               (''p99_latency'', PyFloat p99_latency),
               (''min_latency'', PyFloat min_latency),
               (''max_latency'', PyFloat max_latency),
               (''errors'', PyInt errors),
               (''success_rate'', PyFloat success_rate)])))))))))"

section \<open>The concurrent load drivers\<close>

text \<open>
  The order in which concurrent probes complete is the scheduler's choice. It is given by
  a list of picks: each pick \<open>p\<close> chooses, among the probes not yet completed, the one at
  position \<open>p\<close> modulo their number; when the picks are used up, the others complete in the
  order of submission. Whatever the picks, every probe completes once, and every order of
  completion is given by some picks.
\<close>

fun as_completed :: "nat list \<Rightarrow> 'a list \<Rightarrow> 'a list" where
  "as_completed [] futures = futures"
| "as_completed (p # picks) futures =
     (if futures = [] then []
      else let k = p mod length futures
           in futures ! k # as_completed picks (take k futures @ drop (Suc k) futures))"

text \<open>
  \<^verbatim>\<open>test_concurrent_sync\<close> (lines 119-159). The probe submitted as number \<open>i\<close> of
  \<^verbatim>\<open>range(num_requests)\<close> runs in the world \<open>worlds i\<close>. \<^verbatim>\<open>as_completed(futures)\<close> yields
  every future once, in the order of completion.
  \<^verbatim>\<open>ThreadPoolExecutor(max_workers=num_requests)\<close> raises \<^verbatim>\<open>ValueError\<close> unless
  \<open>num_requests > 0\<close>. \<^verbatim>\<open>future.result()\<close> returns what the probe returned, or raises
  what it raised. \<open>clock0\<close> and \<open>clock1\<close> are the driver's two readings of
  \<^verbatim>\<open>time.time()\<close> (lines 122 and 139).
\<close>

fun collect_sync :: "(exn + outcome) list \<Rightarrow> rat list \<Rightarrow> int \<Rightarrow> exn + rat list \<times> int" where
  "collect_sync [] durations errors = Inr (durations, errors)"
| "collect_sync (future # rest) durations errors =
     (case future of
        Inl e \<Rightarrow> Inl e
      | Inr result \<Rightarrow>
          if success result then collect_sync rest (durations @ [duration result]) errors
          else collect_sync rest durations (errors + 1))"

text \<open>Lines 123-137: the durations and the error count when the pool has drained.\<close>

definition probes_sync ::
    "(nat \<Rightarrow> probe_world) \<Rightarrow> nat list \<Rightarrow> string \<Rightarrow> string \<Rightarrow> string \<Rightarrow> int
      \<Rightarrow> exn + rat list \<times> int" where
  "probes_sync worlds picks service_name url endpoint num_requests =
     (if num_requests \<le> 0 then Inl (ValueError ''max_workers must be greater than 0'')
      else
        let futures = map (\<lambda>i. test_single_request (worlds i) service_name url endpoint)
                        [0..<nat num_requests]
        in collect_sync (as_completed picks futures) [] 0)"

definition test_concurrent_sync ::
    "(nat \<Rightarrow> probe_world) \<Rightarrow> nat list \<Rightarrow> rat \<Rightarrow> rat \<Rightarrow> string \<Rightarrow> string \<Rightarrow> string \<Rightarrow> int
      \<Rightarrow> exn + pydict" where
  "test_concurrent_sync worlds picks clock0 clock1 service_name url endpoint num_requests =
     ebind (probes_sync worlds picks service_name url endpoint num_requests)
       (\<lambda>(durations, errors). summary_sync durations errors (float_sub clock1 clock0))"

text \<open>
  \<^verbatim>\<open>test_concurrent_async\<close> (lines 162-208). \<^verbatim>\<open>asyncio.gather(*tasks)\<close> returns the
  results in the order of the task list when every task returns; when tasks raise, it
  raises the exception of the task that raises first in time, that is first in the order
  of completion.
\<close>

fun first_raised :: "(exn + 'a) list \<Rightarrow> exn option" where
  "first_raised [] = None"
| "first_raised (task # tasks) =
     (case task of Inl e \<Rightarrow> Some e | Inr v \<Rightarrow> first_raised tasks)"

fun returned :: "(exn + 'a) list \<Rightarrow> 'a list" where
  "returned [] = []"
| "returned (task # tasks) =
     (case task of Inl e \<Rightarrow> returned tasks | Inr v \<Rightarrow> v # returned tasks)"

definition gather :: "nat list \<Rightarrow> (exn + 'a) list \<Rightarrow> exn + 'a list" where
  "gather picks tasks =
     (case first_raised (as_completed picks tasks) of
        Some e \<Rightarrow> Inl e
      | None \<Rightarrow> Inr (returned tasks))"

fun collect_async :: "outcome list \<Rightarrow> rat list \<Rightarrow> int \<Rightarrow> rat list \<times> int" where
  "collect_async [] durations errors = (durations, errors)"
| "collect_async (result # rest) durations errors =
     (if success result then collect_async rest (durations @ [duration result]) errors
      else collect_async rest durations (errors + 1))"

text \<open>Lines 166-186.\<close>

definition probes_async ::
    "(nat \<Rightarrow> probe_world) \<Rightarrow> nat list \<Rightarrow> string \<Rightarrow> string \<Rightarrow> int \<Rightarrow> exn + rat list \<times> int" where
  "probes_async worlds picks url endpoint num_requests =
     (let tasks = map (\<lambda>i. make_request (worlds i) url endpoint) [0..<nat num_requests]
      in ebind (gather picks tasks) (\<lambda>results. Inr (collect_async results [] 0)))"

definition test_concurrent_async ::
    "(nat \<Rightarrow> probe_world) \<Rightarrow> nat list \<Rightarrow> rat \<Rightarrow> rat \<Rightarrow> string \<Rightarrow> string \<Rightarrow> string \<Rightarrow> int
      \<Rightarrow> exn + pydict" where
  "test_concurrent_async worlds picks clock0 clock1 service_name url endpoint num_requests =
     ebind (probes_async worlds picks url endpoint num_requests)
       (\<lambda>(durations, errors). summary_async durations errors (float_sub clock1 clock0))"

section \<open>The readiness gate\<close>

text \<open>
  \<^verbatim>\<open>wait_for_service\<close> (lines 60-76). The clock is explicit: \<open>now\<close> is what
  \<^verbatim>\<open>time.time()\<close> reads. The service is a script, one entry for each GET of the health
  endpoint in turn: the time the request takes and what it does (raise, or return a
  response with a status code). \<^verbatim>\<open>asyncio.sleep(1)\<close> advances the clock by one second.
  The run is reported with its trace, the requests and sleeps in the order they happen.
  The result is \<open>None\<close> when the script ends while the loop is still polling.
\<close>

datatype event = Request | Sleep rat

fun poll_loop ::
    "rat \<Rightarrow> rat \<Rightarrow> rat \<Rightarrow> (rat \<times> (exn + int)) list \<Rightarrow> (exn + bool) option \<times> event list" where
  "poll_loop start timeout now [] =
     (if float_sub now start < timeout then (None, []) else (Some (Inr False), []))"
| "poll_loop start timeout now ((latency, response) # script) =
     (if float_sub now start < timeout then
        (case response of
           Inr code \<Rightarrow>
             if code = 200 then (Some (Inr True), [Request])
             else (let (r, trace) = poll_loop start timeout (now + latency) script
                   in (r, Request # trace))
         | Inl e \<Rightarrow>
             if is_Exception e
             then (let (r, trace) = poll_loop start timeout (now + latency + 1) script
                   in (r, Request # Sleep 1 # trace))
             else (Some (Inl e), [Request]))
      else (Some (Inr False), []))"

definition wait_for_service ::
    "rat \<Rightarrow> (rat \<times> (exn + int)) list \<Rightarrow> int \<Rightarrow> (exn + bool) option \<times> event list" where
  "wait_for_service clock script timeout = poll_loop clock (of_int timeout) clock script"

section \<open>Sample runs\<close>

text \<open>
  Two runs of three and of two probes, on which the theorems below are instantiated. In
  the first, probe 1 meets a refused connection and probes 0 and 2 a response 200; probe
  \<open>i\<close> measures a duration of \<open>i + 1\<close> seconds. In the second, probe 0 meets a response
  503 and probe 1 a timeout.
\<close>

abbreviation mixed_worlds :: "nat \<Rightarrow> probe_world" where
  "mixed_worlds \<equiv> \<lambda>i.
     \<lparr>http_get = (\<lambda>u. if i = 1 then Inl (TransportError ''connection refused'') else Inr 200),
      clock_before = 0, clock_after = rat_of_nat i + 1\<rparr>"

abbreviation failing_worlds :: "nat \<Rightarrow> probe_world" where
  "failing_worlds \<equiv> \<lambda>i.
     \<lparr>http_get = (\<lambda>u. if i = 0 then Inr 503 else Inl (TransportError ''timed out'')),
      clock_before = 0, clock_after = rat_of_nat i + 1\<rparr>"

section \<open>Notions used in the statements\<close>

text \<open>
  The doubles, as a set. \<open>m\<close> may be \<open>2 ^ 53\<close> itself: \<open>2 ^ 53 * 2 ^ e\<close> is the double
  \<open>2 ^ 52 * 2 ^ (e + 1)\<close>.
\<close>

definition doubles :: "rat set" where
  "doubles = {x. \<exists>m e. x = of_int m * 2 powi e \<and> \<bar>m\<bar> \<le> 2 ^ 53 \<and> - 1074 \<le> e}"

text \<open>
  A duration on the grid of step \<open>2 ^ k\<close>: a multiple of \<open>2 ^ k\<close> of at most 44 bits. The
  difference of two readings of \<^verbatim>\<open>time.time()\<close> is on the grid of step \<open>2 ^ -22\<close> seconds
  (a quarter of a microsecond) as long as the readings are at least \<open>2 ^ 30\<close> seconds, the
  case since 2004, and less than \<open>2 ^ 22\<close> seconds (48 days) apart.
\<close>

definition on_grid :: "int \<Rightarrow> rat \<Rightarrow> bool" where
  "on_grid k d \<longleftrightarrow> of_int \<lfloor>d / 2 powi k\<rfloor> = d / 2 powi k \<and> \<bar>d\<bar> \<le> 2 ^ 44 * 2 powi k"

text \<open>The cut point without the four roundings of the interpolation.\<close>

definition exact_cut_point :: "rat list \<Rightarrow> int \<Rightarrow> int \<Rightarrow> rat" where
  "exact_cut_point data n i =
     (let ld = len data; j = cut_index ld n i; delta = cut_delta ld n i
      in (data ! nat (j - 1) * of_int (n - delta) + data ! nat j * of_int delta) / of_int n)"

section \<open>Facts about rounding\<close>

lemma round_half_even_cases:
  "(round_half_even y = \<lfloor>y\<rfloor> \<and> y - of_int \<lfloor>y\<rfloor> \<le> 1 / 2)
   \<or> (round_half_even y = \<lfloor>y\<rfloor> + 1 \<and> 1 / 2 \<le> y - of_int \<lfloor>y\<rfloor>)"
  by (auto simp: round_half_even_def Let_def)

lemma round_half_even_nearest:
  "\<bar>of_int (round_half_even y) - y\<bar> \<le> \<bar>of_int z - y\<bar>"
proof -
  define f where "f = \<lfloor>y\<rfloor>"
  have f: "of_int f \<le> y" "y < of_int f + 1" by (simp_all add: f_def) linarith
  have z: "(of_int z :: rat) \<le> of_int f \<or> (of_int f :: rat) + 1 \<le> of_int z"
  proof (cases "z \<le> f")
    case True
    then show ?thesis by simp
  next
    case False
    then have "f + 1 \<le> z" by simp
    then have "(of_int (f + 1) :: rat) \<le> of_int z" by (simp only: of_int_le_iff)
    then show ?thesis by simp
  qed
  from round_half_even_cases[of y]
  have c: "(of_int (round_half_even y) = (of_int f :: rat) \<and> y - of_int f \<le> 1 / 2)
      \<or> (of_int (round_half_even y) = (of_int f :: rat) + 1 \<and> 1 / 2 \<le> y - of_int f)"
    unfolding f_def by auto
  show ?thesis by (insert f z c, elim disjE conjE; linarith)
qed

lemma round_half_even_half:
  "\<bar>of_int (round_half_even y) - y\<bar> \<le> 1 / 2"
proof -
  define f where "f = \<lfloor>y\<rfloor>"
  have f: "of_int f \<le> y" "y < of_int f + 1" by (simp_all add: f_def) linarith
  from round_half_even_cases[of y]
  have c: "(of_int (round_half_even y) = (of_int f :: rat) \<and> y - of_int f \<le> 1 / 2)
      \<or> (of_int (round_half_even y) = (of_int f :: rat) + 1 \<and> 1 / 2 \<le> y - of_int f)"
    unfolding f_def by auto
  show ?thesis by (insert f c, elim disjE conjE; linarith)
qed

lemma bitlen_as_powi:
  assumes "0 < p"
  shows "2 powi (bitlen p - 1) \<le> (of_int p :: rat)" and "(of_int p :: rat) < 2 powi bitlen p"
proof -
  from bitlen_bounds[OF assms] have b: "2 ^ nat (bitlen p - 1) \<le> p" "p < 2 ^ nat (bitlen p)"
    by simp_all
  have one: "1 \<le> bitlen p"
  proof (rule ccontr)
    assume "\<not> 1 \<le> bitlen p"
    then have "nat (bitlen p) = 0" by simp
    with b(2) assms show False by simp
  qed
  have "(of_int (2 ^ nat (bitlen p - 1)) :: rat) \<le> of_int p" using b(1) by (simp only: of_int_le_iff)
  then show "2 powi (bitlen p - 1) \<le> (of_int p :: rat)"
    using one by (simp add: power_int_nonneg_exp)
  have "(of_int p :: rat) < of_int (2 ^ nat (bitlen p))" using b(2) by (simp only: of_int_less_iff)
  then show "(of_int p :: rat) < 2 powi bitlen p"
    using one by (simp add: power_int_nonneg_exp)
qed

lemma ilog2_bounds:
  assumes "0 < x"
  shows "2 powi ilog2 x \<le> x" and "x < 2 powi (ilog2 x + 1)"
proof -
  obtain p q where pq: "quotient_of x = (p, q)" by (cases "quotient_of x")
  have q: "0 < q" using quotient_of_denom_pos[OF pq] .
  have x: "x = of_int p / of_int q" using quotient_of_div[OF pq] .
  have p: "0 < p"
  proof (rule ccontr)
    assume "\<not> 0 < p"
    then have "(of_int p :: rat) \<le> 0" by simp
    with q have "x \<le> 0" unfolding x by (simp add: divide_nonpos_pos)
    with assms show False by simp
  qed
  define k where "k = bitlen p - bitlen q"
  have xq: "x * of_int q = of_int p" using q unfolding x by simp
  have qpos: "(0 :: rat) < of_int q" using q by simp
  have upper: "x < 2 powi (k + 1)"
  proof -
    have "x * 2 powi (bitlen q - 1) \<le> x * of_int q"
      using bitlen_as_powi(1)[OF q] assms by (intro mult_left_mono) simp_all
    also have "\<dots> < 2 powi bitlen p" unfolding xq by (rule bitlen_as_powi(2)[OF p])
    also have "\<dots> = 2 powi (k + 1) * 2 powi (bitlen q - 1)"
      by (simp add: k_def power_int_add[symmetric])
    finally show ?thesis by simp
  qed
  have lower: "2 powi (k - 1) < x"
  proof -
    have "2 powi (k - 1) * 2 powi bitlen q = (2 :: rat) powi (bitlen p - 1)"
      by (simp add: k_def power_int_add[symmetric])
    also have "\<dots> \<le> of_int p" by (rule bitlen_as_powi(1)[OF p])
    also have "\<dots> = x * of_int q" by (simp only: xq)
    also have "\<dots> < x * 2 powi bitlen q"
      using bitlen_as_powi(2)[OF q] assms by (intro mult_strict_left_mono) simp_all
    finally show ?thesis by simp
  qed
  have il: "ilog2 x = (if 2 powi k \<le> x then k else k - 1)"
    by (simp add: ilog2_def pq k_def Let_def)
  show "2 powi ilog2 x \<le> x" using lower by (simp add: il)
  show "x < 2 powi (ilog2 x + 1)" using upper by (auto simp: il)
qed


lemma fl_exponent:
  assumes "x \<noteq> 0" and "e = max (- 1074) (ilog2 \<bar>x\<bar> - 52)"
  shows "\<bar>x\<bar> < 2 powi (e + 53)" and "e = - 1074 \<or> 2 powi (e + 52) \<le> \<bar>x\<bar>" and "- 1074 \<le> e"
proof -
  have pos: "0 < \<bar>x\<bar>" using assms(1) by simp
  have "\<bar>x\<bar> < 2 powi (ilog2 \<bar>x\<bar> + 1)" by (rule ilog2_bounds(2)[OF pos])
  also have "\<dots> \<le> 2 powi (e + 53)"
    by (rule power_int_increasing) (simp_all add: assms(2))
  finally show "\<bar>x\<bar> < 2 powi (e + 53)" .
  show "e = - 1074 \<or> 2 powi (e + 52) \<le> \<bar>x\<bar>"
  proof (cases "e = - 1074")
    case False
    then have "e + 52 = ilog2 \<bar>x\<bar>" using assms(2) by simp
    then show ?thesis using ilog2_bounds(1)[OF pos] by simp
  qed simp
  show "- 1074 \<le> e" by (simp add: assms(2))
qed

lemma fl_nonzero:
  assumes "x \<noteq> 0" and "e = max (- 1074) (ilog2 \<bar>x\<bar> - 52)"
  shows "fl x = of_int (round_half_even (x / 2 powi e)) * 2 powi e"
  using assms by (simp add: fl_def Let_def)

lemma doublesI:
  "x = of_int m * 2 powi e \<Longrightarrow> \<bar>m\<bar> \<le> 2 ^ 53 \<Longrightarrow> - 1074 \<le> e \<Longrightarrow> x \<in> doubles"
  unfolding doubles_def by blast

lemma fl_in_doubles: "fl x \<in> doubles"
proof (cases "x = 0")
  case True
  show ?thesis unfolding True by (rule doublesI[of _ 0 0]) (simp_all add: fl_def)
next
  case False
  define e where "e = max (- 1074) (ilog2 \<bar>x\<bar> - 52)"
  define P :: rat where "P = 2 powi e"
  define y where "y = x / P"
  have P: "0 < P" by (simp add: P_def)
  have "\<bar>x\<bar> < 2 powi (e + 53)" by (rule fl_exponent(1)[OF False e_def])
  also have "\<dots> = 2 ^ 53 * P" by (simp add: P_def power_int_add)
  finally have "\<bar>x\<bar> / P < 2 ^ 53" using P by (simp add: field_simps)
  then have y: "\<bar>y\<bar> < 2 ^ 53" using P by (simp add: y_def)
  define m where "m = round_half_even y"
  have "\<bar>of_int m - y\<bar> \<le> 1 / 2" unfolding m_def by (rule round_half_even_half)
  with y have "\<bar>of_int m :: rat\<bar> < 2 ^ 53 + 1" by linarith
  then have "(of_int \<bar>m\<bar> :: rat) < of_int (2 ^ 53 + 1)" by simp
  then have "\<bar>m\<bar> < 2 ^ 53 + 1" by (simp only: of_int_less_iff)
  then have m: "\<bar>m\<bar> \<le> 2 ^ 53" by simp
  have "fl x = of_int m * 2 powi e"
    unfolding m_def y_def P_def by (rule fl_nonzero[OF False e_def])
  then show ?thesis using m fl_exponent(3)[OF False e_def] by (rule doublesI)
qed

lemma fl_nearest:
  assumes "d \<in> doubles"
  shows "\<bar>fl x - x\<bar> \<le> \<bar>d - x\<bar>"
proof (cases "x = 0")
  case True
  then show ?thesis by (simp add: fl_def)
next
  case False
  from assms obtain m k where d: "d = of_int m * 2 powi k" and m: "\<bar>m\<bar> \<le> 2 ^ 53"
    and k: "- 1074 \<le> k" unfolding doubles_def by blast
  define e where "e = max (- 1074) (ilog2 \<bar>x\<bar> - 52)"
  define P :: rat where "P = 2 powi e"
  define y where "y = x / P"
  have P: "0 < P" by (simp add: P_def)
  have x: "x = y * P" using P by (simp add: y_def)
  have flx: "fl x = of_int (round_half_even y) * P"
    unfolding y_def P_def by (rule fl_nonzero[OF False e_def])
  have scaled: "\<bar>of_int z * P - x\<bar> = \<bar>of_int z - y\<bar> * P" for z :: int
  proof -
    have "of_int z * P - x = (of_int z - y) * P" unfolding x by (simp add: algebra_simps)
    then show ?thesis using P by (simp add: abs_mult)
  qed
  have near: "\<bar>fl x - x\<bar> \<le> \<bar>of_int z * P - x\<bar>" for z :: int
    unfolding flx scaled using round_half_even_nearest[of y z] P
    by (intro mult_right_mono) simp_all
  show ?thesis
  proof (cases "e \<le> k")
    case True
    define z where "z = m * 2 ^ nat (k - e)"
    have "(2 :: rat) powi k = 2 powi (k - e) * 2 powi e" by (simp add: power_int_add[symmetric])
    also have "(2 :: rat) powi (k - e) = 2 ^ nat (k - e)" using True by (simp add: power_int_nonneg_exp)
    finally have "d = of_int z * P" by (simp add: d z_def P_def)
    with near[of z] show ?thesis by simp
  next
    case False
    with k have "e \<noteq> - 1074" by simp
    with fl_exponent(2)[OF \<open>x \<noteq> 0\<close> e_def] have big: "2 powi (e + 52) \<le> \<bar>x\<bar>" by simp
    have g: "(2 :: rat) powi (e + 52) = 2 ^ 52 * P" by (simp add: P_def power_int_add)
    have "\<bar>d\<bar> = of_int \<bar>m\<bar> * 2 powi k" by (simp add: d abs_mult)
    also have "\<dots> \<le> of_int (2 ^ 53) * 2 powi k"
      using m by (intro mult_right_mono) (simp_all only: of_int_le_iff zero_le_power_int zero_le_numeral)
    also have "\<dots> \<le> of_int (2 ^ 53) * 2 powi (e - 1)"
      using False by (intro mult_left_mono power_int_increasing) simp_all
    also have "\<dots> = 2 powi (e + 52)"
    proof -
      have "(2 :: rat) powi 53 * 2 powi (e - 1) = 2 powi (53 + (e - 1))"
        by (rule power_int_add[symmetric]) simp
      moreover have "53 + (e - 1) = e + 52" by simp
      ultimately have "(2 :: rat) powi 53 * 2 powi (e - 1) = 2 powi (e + 52)" by (simp only:)
      then show ?thesis by simp
    qed
    finally have dsmall: "\<bar>d\<bar> \<le> 2 powi (e + 52)" .
    show ?thesis
    proof (cases "0 < x")
      case True
      have "\<bar>fl x - x\<bar> \<le> \<bar>of_int (2 ^ 52) * P - x\<bar>" by (rule near)
      also have "of_int (2 ^ 52) * P = 2 powi (e + 52)" by (simp add: g)
      finally show ?thesis using big dsmall True by linarith
    next
      case neg: False
      with \<open>x \<noteq> 0\<close> have xneg: "x < 0" by simp
      have "\<bar>fl x - x\<bar> \<le> \<bar>of_int (- (2 ^ 52)) * P - x\<bar>" by (rule near)
      also have "of_int (- (2 ^ 52)) * P = - (2 powi (e + 52))" by (simp add: g)
      finally show ?thesis using big dsmall xneg by linarith
    qed
  qed
qed

lemma fl_double: "d \<in> doubles \<Longrightarrow> fl d = d"
  using fl_nearest[of d d] by simp

lemma fl_idem: "fl (fl x) = fl x"
  by (rule fl_double[OF fl_in_doubles])

lemma fl_ge_double: "d \<in> doubles \<Longrightarrow> d \<le> x \<Longrightarrow> d \<le> fl x"
  using fl_nearest[of d x] by linarith

lemma fl_le_double: "d \<in> doubles \<Longrightarrow> x \<le> d \<Longrightarrow> fl x \<le> d"
  using fl_nearest[of d x] by linarith

lemma fl_mono:
  assumes "x \<le> y"
  shows "fl x \<le> fl y"
proof (cases "x = y")
  case True
  then show ?thesis by simp
next
  case False
  with assms have "x < y" by simp
  with fl_nearest[OF fl_in_doubles, of y x] fl_nearest[OF fl_in_doubles, of x y]
  show ?thesis by linarith
qed

text \<open>Integers of at most 53 bits are doubles, and convert exactly.\<close>

lemma int_in_doubles: "\<bar>m\<bar> \<le> 2 ^ 53 \<Longrightarrow> of_int m \<in> doubles"
  by (rule doublesI[of _ m 0]) simp_all

lemma float_of_int_exact: "\<bar>m\<bar> \<le> 2 ^ 53 \<Longrightarrow> float_of_int m = of_int m"
  unfolding float_of_int_def by (rule fl_double[OF int_in_doubles])

lemma fl_0 [simp]: "fl 0 = 0"
  by (simp add: fl_def)

lemma fl_1 [simp]: "fl 1 = 1"
  using fl_double[OF int_in_doubles[of 1]] by simp

lemma fl_numeral [simp]: "numeral w \<le> (2 ^ 53 :: int) \<Longrightarrow> fl (numeral w) = numeral w"
  using fl_double[OF int_in_doubles[of "numeral w"]] by simp

lemma fl_neg_numeral [simp]:
  "numeral w \<le> (2 ^ 53 :: int) \<Longrightarrow> fl (- numeral w) = - numeral w"
  using fl_double[OF int_in_doubles[of "- numeral w"]] by simp

lemma fl_of_nat [simp]: "int n \<le> 2 ^ 53 \<Longrightarrow> fl (of_nat n) = of_nat n"
  using fl_double[OF int_in_doubles[of "int n"]] by simp

text \<open>
  The rounded difference of two distinct doubles is not zero (there is a subnormal double
  between zero and any such difference).
\<close>

lemma double_multiple:
  assumes "d \<in> doubles" and "E = - 1074"
  shows "\<exists>z :: int. d = of_int z * 2 powi E"
proof -
  from assms(1) obtain m e where d: "d = of_int m * 2 powi e" and e: "- 1074 \<le> e"
    unfolding doubles_def by blast
  have "(2 :: rat) powi (e - E) * 2 powi E = 2 powi ((e - E) + E)"
    by (rule power_int_add[symmetric]) simp
  then have "(2 :: rat) powi e = 2 powi (e - E) * 2 powi E" by simp
  also have "(2 :: rat) powi (e - E) = 2 ^ nat (e - E)"
    using e assms(2) by (simp add: power_int_nonneg_exp)
  finally have "d = of_int (m * 2 ^ nat (e - E)) * 2 powi E" by (simp add: d)
  then show ?thesis by blast
qed

lemma float_sub_nonzero:
  assumes "x \<in> doubles" "y \<in> doubles" "x \<noteq> y"
  shows "float_sub x y \<noteq> 0"
proof
  assume zero: "float_sub x y = 0"
  define E :: int where "E = - 1074"
  define u :: rat where "u = 2 powi E"
  have u: "0 < u" by (simp add: u_def)
  from double_multiple[OF assms(1) E_def] double_multiple[OF assms(2) E_def]
  obtain a b :: int where x: "x = of_int a * u" and y: "y = of_int b * u"
    unfolding u_def by blast
  have ab: "a \<noteq> b" using assms(3) x y by auto
  have diff: "x - y = of_int (a - b) * u" by (simp add: x y algebra_simps)
  have "1 \<le> \<bar>a - b\<bar>" using ab by simp
  then have "(of_int 1 :: rat) \<le> of_int \<bar>a - b\<bar>" by (simp only: of_int_le_iff)
  then have "1 * u \<le> \<bar>of_int (a - b) :: rat\<bar> * u" using u by (intro mult_right_mono) simp_all
  then have big: "u \<le> \<bar>x - y\<bar>" using u by (simp add: diff abs_mult)
  have "u = of_int 1 * 2 powi E" by (simp add: u_def)
  then have du1: "u \<in> doubles" by (rule doublesI) (simp_all add: E_def)
  have "- u = of_int (- 1) * 2 powi E" by (simp add: u_def)
  then have du2: "- u \<in> doubles" by (rule doublesI) (simp_all add: E_def)
  from zero have z: "fl (x - y) = 0" by (simp add: float_sub_def)
  from fl_nearest[OF du1, of "x - y"] fl_nearest[OF du2, of "x - y"] big u
  show False unfolding z by linarith
qed

text \<open>Durations on a grid are doubles, and so are their small integer multiples.\<close>

lemma on_grid_iff:
  "on_grid k d \<longleftrightarrow> (\<exists>m :: int. d = of_int m * 2 powi k \<and> \<bar>m\<bar> \<le> 2 ^ 44)"
proof
  assume g: "on_grid k d"
  define m where "m = \<lfloor>d / 2 powi k\<rfloor>"
  have P: "(0 :: rat) < 2 powi k" by simp
  from g have "of_int m = d / 2 powi k" by (simp add: on_grid_def m_def)
  then have d: "d = of_int m * 2 powi k" using P by (simp add: field_simps)
  from g have "\<bar>d\<bar> \<le> 2 ^ 44 * 2 powi k" by (simp add: on_grid_def)
  then have "\<bar>of_int m :: rat\<bar> * 2 powi k \<le> 2 ^ 44 * 2 powi k" by (simp add: d abs_mult)
  then have "\<bar>of_int m :: rat\<bar> \<le> 2 ^ 44" using P by (simp only: mult_le_cancel_right_pos)
  then have "(of_int \<bar>m\<bar> :: rat) \<le> of_int (2 ^ 44)" by simp
  then have "\<bar>m\<bar> \<le> 2 ^ 44" by (simp only: of_int_le_iff)
  with d show "\<exists>m :: int. d = of_int m * 2 powi k \<and> \<bar>m\<bar> \<le> 2 ^ 44" by blast
next
  assume "\<exists>m :: int. d = of_int m * 2 powi k \<and> \<bar>m\<bar> \<le> 2 ^ 44"
  then obtain m :: int where d: "d = of_int m * 2 powi k" and m: "\<bar>m\<bar> \<le> 2 ^ 44" by blast
  have "(of_int \<bar>m\<bar> :: rat) \<le> of_int (2 ^ 44)" using m by (simp only: of_int_le_iff)
  then have "\<bar>of_int m :: rat\<bar> * 2 powi k \<le> 2 ^ 44 * 2 powi k"
    by (intro mult_right_mono) simp_all
  then show "on_grid k d" by (simp add: on_grid_def d abs_mult)
qed

lemma grid_scaled_double:
  assumes "on_grid k d" "- 1074 \<le> k" "\<bar>c\<bar> \<le> 512"
  shows "d * of_int c \<in> doubles"
proof -
  from assms(1) obtain m :: int where d: "d = of_int m * 2 powi k" and m: "\<bar>m\<bar> \<le> 2 ^ 44"
    unfolding on_grid_iff by blast
  have "\<bar>m * c\<bar> = \<bar>m\<bar> * \<bar>c\<bar>" by (rule abs_mult)
  also have "\<dots> \<le> 2 ^ 44 * 512" using m assms(3) by (intro mult_mono) simp_all
  finally have "\<bar>m * c\<bar> \<le> 2 ^ 53" by simp
  moreover have "d * of_int c = of_int (m * c) * 2 powi k" by (simp add: d)
  ultimately show ?thesis using assms(2) by (intro doublesI[of _ "m * c" k])
qed

lemma grid_double: "on_grid k d \<Longrightarrow> - 1074 \<le> k \<Longrightarrow> d \<in> doubles"
  using grid_scaled_double[of k d 1] by simp

text \<open>
  On a grid the two products and the sum of the interpolation are exact, when the weights
  are as small as those of the cut points.
\<close>

lemma grid_interpolation_exact:
  assumes "on_grid k a" "on_grid k b" "- 1074 \<le> k" "\<bar>c\<bar> + \<bar>c'\<bar> \<le> 512"
  shows "float_add (float_mul a (float_of_int c)) (float_mul b (float_of_int c'))
       = a * of_int c + b * of_int c'"
proof -
  have c: "\<bar>c\<bar> \<le> 512" "\<bar>c'\<bar> \<le> 512" using assms(4) by simp_all
  have ci: "float_of_int c = of_int c" "float_of_int c' = of_int c'"
    using c by (simp_all add: float_of_int_exact)
  have p1: "float_mul a (of_int c) = a * of_int c"
    unfolding float_mul_def by (rule fl_double[OF grid_scaled_double[OF assms(1,3) c(1)]])
  have p2: "float_mul b (of_int c') = b * of_int c'"
    unfolding float_mul_def by (rule fl_double[OF grid_scaled_double[OF assms(2,3) c(2)]])
  from assms(1) obtain m :: int where a: "a = of_int m * 2 powi k" and m: "\<bar>m\<bar> \<le> 2 ^ 44"
    unfolding on_grid_iff by blast
  from assms(2) obtain m' :: int where b: "b = of_int m' * 2 powi k" and m': "\<bar>m'\<bar> \<le> 2 ^ 44"
    unfolding on_grid_iff by blast
  have "\<bar>m * c + m' * c'\<bar> \<le> \<bar>m\<bar> * \<bar>c\<bar> + \<bar>m'\<bar> * \<bar>c'\<bar>"
    by (metis abs_mult abs_triangle_ineq)
  also have "\<dots> \<le> 2 ^ 44 * \<bar>c\<bar> + 2 ^ 44 * \<bar>c'\<bar>"
    using m m' by (intro add_mono mult_right_mono) simp_all
  also have "\<dots> = 2 ^ 44 * (\<bar>c\<bar> + \<bar>c'\<bar>)" by (simp add: algebra_simps)
  also have "\<dots> \<le> 2 ^ 44 * 512" using assms(4) by (intro mult_left_mono) simp_all
  finally have bound: "\<bar>m * c + m' * c'\<bar> \<le> 2 ^ 53" by simp
  have "a * of_int c + b * of_int c' = of_int (m * c + m' * c') * 2 powi k"
    by (simp add: a b algebra_simps)
  then have "a * of_int c + b * of_int c' \<in> doubles"
    using bound assms(3) by (intro doublesI[of _ "m * c + m' * c'" k])
  then show ?thesis unfolding ci p1 p2 float_add_def by (rule fl_double)
qed

section \<open>Facts about the cut points\<close>

text \<open>Floor division by a positive number, as two linear bounds.\<close>

lemma floor_div_bounds:
  fixes a n :: int
  assumes "0 < n"
  shows "n * (a div n) \<le> a" and "a < n * (a div n) + n"
proof -
  have "a = n * (a div n) + a mod n" by simp
  moreover have "0 \<le> a mod n" "a mod n < n" using assms by simp_all
  ultimately show "n * (a div n) \<le> a" and "a < n * (a div n) + n" by linarith+
qed

lemma cut_index_range: "2 \<le> ld \<Longrightarrow> 1 \<le> cut_index ld n i \<and> cut_index ld n i \<le> ld - 1"
  by (simp add: cut_index_def Let_def)

lemma cut_delta_95_nonneg: assumes "2 \<le> ld" shows "0 \<le> cut_delta ld 20 19"
proof -
  define q where "q = 19 * (ld + 1) div 20"
  have "20 * q \<le> 19 * (ld + 1)" "19 * (ld + 1) < 20 * q + 20"
    unfolding q_def using floor_div_bounds[of 20 "19 * (ld + 1)"] by simp_all
  then show ?thesis using assms
    unfolding cut_delta_def cut_index_def Let_def q_def[symmetric] by (simp split: if_splits)
qed


lemma cut_delta_99_nonneg: assumes "2 \<le> ld" shows "0 \<le> cut_delta ld 100 99"
proof -
  define q where "q = 99 * (ld + 1) div 100"
  have "100 * q \<le> 99 * (ld + 1)" "99 * (ld + 1) < 100 * q + 100"
    unfolding q_def using floor_div_bounds[of 100 "99 * (ld + 1)"] by simp_all
  then show ?thesis using assms
    unfolding cut_delta_def cut_index_def Let_def q_def[symmetric] by (simp split: if_splits)
qed

lemma cut_index_95_le_99: assumes "2 \<le> ld" shows "cut_index ld 20 19 \<le> cut_index ld 100 99"
proof -
  define p where "p = 19 * (ld + 1) div 20"
  define q where "q = 99 * (ld + 1) div 100"
  have "20 * p \<le> 19 * (ld + 1)" "19 * (ld + 1) < 20 * p + 20"
    unfolding p_def using floor_div_bounds[of 20 "19 * (ld + 1)"] by simp_all
  moreover have "100 * q \<le> 99 * (ld + 1)" "99 * (ld + 1) < 100 * q + 100"
    unfolding q_def using floor_div_bounds[of 100 "99 * (ld + 1)"] by simp_all
  ultimately show ?thesis using assms
    unfolding cut_index_def Let_def p_def[symmetric] q_def[symmetric]
    by (simp split: if_splits)
qed

lemma cut_delta_95_below:
  assumes "2 \<le> ld" and "cut_index ld 20 19 < cut_index ld 100 99"
  shows "cut_delta ld 20 19 \<le> 20"
proof -
  define p where "p = 19 * (ld + 1) div 20"
  define q where "q = 99 * (ld + 1) div 100"
  have "20 * p \<le> 19 * (ld + 1)" "19 * (ld + 1) < 20 * p + 20"
    unfolding p_def using floor_div_bounds[of 20 "19 * (ld + 1)"] by simp_all
  moreover have "100 * q \<le> 99 * (ld + 1)" "99 * (ld + 1) < 100 * q + 100"
    unfolding q_def using floor_div_bounds[of 100 "99 * (ld + 1)"] by simp_all
  ultimately show ?thesis using assms
    unfolding cut_delta_def cut_index_def Let_def p_def[symmetric] q_def[symmetric]
    by (simp split: if_splits)
qed

lemma cut_delta_same_index:
  assumes "2 \<le> ld" and "cut_index ld 20 19 = cut_index ld 100 99"
  shows "5 * cut_delta ld 20 19 \<le> cut_delta ld 100 99"
  using assms unfolding cut_delta_def Let_def by simp

lemma cut_delta_95_large: assumes "19 \<le> ld" shows "cut_delta ld 20 19 \<le> 20"
proof -
  define p where "p = 19 * (ld + 1) div 20"
  have "20 * p \<le> 19 * (ld + 1)" "19 * (ld + 1) < 20 * p + 20"
    unfolding p_def using floor_div_bounds[of 20 "19 * (ld + 1)"] by simp_all
  then show ?thesis using assms
    unfolding cut_delta_def cut_index_def Let_def p_def[symmetric] by (simp split: if_splits)
qed

lemma cut_delta_99_large: assumes "99 \<le> ld" shows "cut_delta ld 100 99 \<le> 100"
proof -
  define q where "q = 99 * (ld + 1) div 100"
  have "100 * q \<le> 99 * (ld + 1)" "99 * (ld + 1) < 100 * q + 100"
    unfolding q_def using floor_div_bounds[of 100 "99 * (ld + 1)"] by simp_all
  then show ?thesis using assms
    unfolding cut_delta_def cut_index_def Let_def q_def[symmetric] by (simp split: if_splits)
qed

text \<open>
  The interpolated value \<open>(a * (n - d) + b * d) / n\<close> of two values \<open>a \<le> b\<close>: it is
  at least \<open>a\<close> when \<open>d \<ge> 0\<close>, at most \<open>b\<close> when \<open>d \<le> n\<close>, and grows with \<open>d / n\<close>.
\<close>

lemma interp_lower:
  fixes a b :: rat
  assumes "a \<le> b" "0 \<le> d" "0 < n"
  shows "a \<le> (a * of_int (n - d) + b * of_int d) / of_int n"
proof -
  have "(a * of_int (n - d) + b * of_int d) / of_int n = a + (b - a) * (of_int d / of_int n)"
    using assms(3) by (simp add: field_simps)
  moreover have "0 \<le> (b - a) * (of_int d / of_int n)"
    using assms by (intro mult_nonneg_nonneg) simp_all
  ultimately show ?thesis by simp
qed

lemma interp_upper:
  fixes a b :: rat
  assumes "a \<le> b" "d \<le> n" "0 < n"
  shows "(a * of_int (n - d) + b * of_int d) / of_int n \<le> b"
proof -
  have "(a * of_int (n - d) + b * of_int d) / of_int n = b - (b - a) * (of_int (n - d) / of_int n)"
    using assms(3) by (simp add: field_simps)
  moreover have "0 \<le> (b - a) * (of_int (n - d) / of_int n)"
    using assms by (intro mult_nonneg_nonneg) simp_all
  ultimately show ?thesis by simp
qed

lemma interp_mono:
  fixes a b :: rat
  assumes "a \<le> b" "0 < n" "0 < n'" "d * n' \<le> d' * n"
  shows "(a * of_int (n - d) + b * of_int d) / of_int n
           \<le> (a * of_int (n' - d') + b * of_int d') / of_int n'"
proof -
  have e1: "(a * of_int (n - d) + b * of_int d) / of_int n = a + (b - a) * (of_int d / of_int n)"
    using assms(2) by (simp add: field_simps)
  have e2: "(a * of_int (n' - d') + b * of_int d') / of_int n' = a + (b - a) * (of_int d' / of_int n')"
    using assms(3) by (simp add: field_simps)
  have "(of_int (d * n') :: rat) \<le> of_int (d' * n)" using assms(4) by (simp only: of_int_le_iff)
  then have "(of_int d :: rat) / of_int n \<le> of_int d' / of_int n'"
    using assms(2,3) by (simp add: field_simps)
  then have "(b - a) * (of_int d / of_int n) \<le> (b - a) * (of_int d' / of_int n')"
    using assms(1) by (intro mult_left_mono) simp_all
  then show ?thesis unfolding e1 e2 by simp
qed

lemma cut_delta_95_bound: assumes "2 \<le> ld" shows "cut_delta ld 20 19 \<le> 37"
proof -
  define p where "p = 19 * (ld + 1) div 20"
  have "20 * p \<le> 19 * (ld + 1)" "19 * (ld + 1) < 20 * p + 20"
    unfolding p_def using floor_div_bounds[of 20 "19 * (ld + 1)"] by simp_all
  then show ?thesis using assms
    unfolding cut_delta_def cut_index_def Let_def p_def[symmetric] by (simp split: if_splits)
qed

lemma cut_delta_99_bound: assumes "2 \<le> ld" shows "cut_delta ld 100 99 \<le> 197"
proof -
  define q where "q = 99 * (ld + 1) div 100"
  have "100 * q \<le> 99 * (ld + 1)" "99 * (ld + 1) < 100 * q + 100"
    unfolding q_def using floor_div_bounds[of 100 "99 * (ld + 1)"] by simp_all
  then show ?thesis using assms
    unfolding cut_delta_def cut_index_def Let_def q_def[symmetric] by (simp split: if_splits)
qed

text \<open>The clamped index, with the floor of the fractional rank written out.\<close>

lemma cut_index_floor:
  assumes "2 \<le> ld"
  shows "cut_index ld n i = max 1 (min (ld - 1) \<lfloor>(of_int (i * (ld + 1)) :: rat) / of_int n\<rfloor>)"
proof -
  have "\<lfloor>(of_int (i * (ld + 1)) :: rat) / of_int n\<rfloor> = i * (ld + 1) div n"
    by (rule floor_divide_of_int_eq)
  then show ?thesis using assms by (simp add: cut_index_def Let_def max_def min_def)
qed

section \<open>Order and range of the unrounded cut points\<close>

lemma sorted_nth_le:
  fixes s :: "rat list"
  assumes "sorted s" "i \<le> j" "j < length s"
  shows "s ! i \<le> s ! j"
  using assms by (simp add: sorted_nth_mono)

lemma exact_cut_point_95_le_99:
  assumes "sorted s" "2 \<le> length s"
  shows "exact_cut_point s 20 19 \<le> exact_cut_point s 100 99"
proof -
  define ld where "ld = len s"
  define j where "j = cut_index ld 20 19"
  define k where "k = cut_index ld 100 99"
  define d where "d = cut_delta ld 20 19"
  define d' where "d' = cut_delta ld 100 99"
  have ld: "2 \<le> ld" "ld = int (length s)" using assms(2) by (simp_all add: ld_def len_def)
  have j: "1 \<le> j" "j \<le> ld - 1" using cut_index_range[OF ld(1)] by (simp_all add: j_def)
  have k: "1 \<le> k" "k \<le> ld - 1" using cut_index_range[OF ld(1)] by (simp_all add: k_def)
  have jk: "j \<le> k" using cut_index_95_le_99[OF ld(1)] by (simp add: j_def k_def)
  have d: "0 \<le> d" using cut_delta_95_nonneg[OF ld(1)] by (simp add: d_def)
  have d': "0 \<le> d'" using cut_delta_99_nonneg[OF ld(1)] by (simp add: d'_def)
  have sj: "s ! nat (j - 1) \<le> s ! nat j"
    using j ld(2) by (intro sorted_nth_le[OF assms(1)]) simp_all
  have sk: "s ! nat (k - 1) \<le> s ! nat k"
    using k ld(2) by (intro sorted_nth_le[OF assms(1)]) simp_all
  have p95: "exact_cut_point s 20 19 = (s ! nat (j - 1) * of_int (20 - d) + s ! nat j * of_int d) / of_int 20"
    by (simp add: exact_cut_point_def Let_def ld_def j_def d_def)
  have p99: "exact_cut_point s 100 99 = (s ! nat (k - 1) * of_int (100 - d') + s ! nat k * of_int d') / of_int 100"
    by (simp add: exact_cut_point_def Let_def ld_def k_def d'_def)
  show ?thesis
  proof (cases "j = k")
    case True
    have "5 * d \<le> d'" using cut_delta_same_index[OF ld(1)] True by (simp add: j_def k_def d_def d'_def)
    then have "d * 100 \<le> d' * 20" by simp
    have "(s ! nat (k - 1) * of_int (20 - d) + s ! nat k * of_int d) / of_int 20
            \<le> (s ! nat (k - 1) * of_int (100 - d') + s ! nat k * of_int d') / of_int 100"
      using \<open>d * 100 \<le> d' * 20\<close> by (intro interp_mono[OF sk]) simp_all
    then show ?thesis unfolding p95 p99 True .
  next
    case False
    with jk have lt: "j < k" by simp
    then have "d \<le> 20" using cut_delta_95_below[OF ld(1)] by (simp add: j_def k_def d_def)
    then have "exact_cut_point s 20 19 \<le> s ! nat j"
      unfolding p95 by (intro interp_upper[OF sj]) simp_all
    also have "s ! nat j \<le> s ! nat (k - 1)"
      using lt j k ld(2) by (intro sorted_nth_le[OF assms(1)]) simp_all
    also have "s ! nat (k - 1) \<le> exact_cut_point s 100 99"
      unfolding p99 by (intro interp_lower[OF sk d']) simp
    finally show ?thesis .
  qed
qed

lemma exact_cut_point_95_lower:
  assumes "sorted s" "2 \<le> length s"
  shows "s ! 0 \<le> exact_cut_point s 20 19"
proof -
  define ld where "ld = len s"
  define j where "j = cut_index ld 20 19"
  define d where "d = cut_delta ld 20 19"
  have ld: "2 \<le> ld" "ld = int (length s)" using assms(2) by (simp_all add: ld_def len_def)
  have j: "1 \<le> j" "j \<le> ld - 1" using cut_index_range[OF ld(1)] by (simp_all add: j_def)
  have d: "0 \<le> d" using cut_delta_95_nonneg[OF ld(1)] by (simp add: d_def)
  have sj: "s ! nat (j - 1) \<le> s ! nat j"
    using j ld(2) by (intro sorted_nth_le[OF assms(1)]) simp_all
  have p95: "exact_cut_point s 20 19 = (s ! nat (j - 1) * of_int (20 - d) + s ! nat j * of_int d) / of_int 20"
    by (simp add: exact_cut_point_def Let_def ld_def j_def d_def)
  have "s ! 0 \<le> s ! nat (j - 1)"
    using j ld(2) by (intro sorted_nth_le[OF assms(1)]) simp_all
  also have "s ! nat (j - 1) \<le> exact_cut_point s 20 19"
    unfolding p95 by (intro interp_lower[OF sj d]) simp
  finally show ?thesis .
qed

lemma exact_cut_point_99_lower:
  assumes "sorted s" "2 \<le> length s"
  shows "s ! 0 \<le> exact_cut_point s 100 99"
proof -
  define ld where "ld = len s"
  define j where "j = cut_index ld 100 99"
  define d where "d = cut_delta ld 100 99"
  have ld: "2 \<le> ld" "ld = int (length s)" using assms(2) by (simp_all add: ld_def len_def)
  have j: "1 \<le> j" "j \<le> ld - 1" using cut_index_range[OF ld(1)] by (simp_all add: j_def)
  have d: "0 \<le> d" using cut_delta_99_nonneg[OF ld(1)] by (simp add: d_def)
  have sj: "s ! nat (j - 1) \<le> s ! nat j"
    using j ld(2) by (intro sorted_nth_le[OF assms(1)]) simp_all
  have p99: "exact_cut_point s 100 99 = (s ! nat (j - 1) * of_int (100 - d) + s ! nat j * of_int d) / of_int 100"
    by (simp add: exact_cut_point_def Let_def ld_def j_def d_def)
  have "s ! 0 \<le> s ! nat (j - 1)"
    using j ld(2) by (intro sorted_nth_le[OF assms(1)]) simp_all
  also have "s ! nat (j - 1) \<le> exact_cut_point s 100 99"
    unfolding p99 by (intro interp_lower[OF sj d]) simp
  finally show ?thesis .
qed

lemma exact_cut_point_95_upper:
  assumes "sorted s" "19 \<le> length s"
  shows "exact_cut_point s 20 19 \<le> s ! (length s - 1)"
proof -
  define ld where "ld = len s"
  define j where "j = cut_index ld 20 19"
  define d where "d = cut_delta ld 20 19"
  have ld: "19 \<le> ld" "2 \<le> ld" "ld = int (length s)" using assms(2) by (simp_all add: ld_def len_def)
  have j: "1 \<le> j" "j \<le> ld - 1" using cut_index_range[OF ld(2)] by (simp_all add: j_def)
  have d: "d \<le> 20" using cut_delta_95_large[OF ld(1)] by (simp add: d_def)
  have sj: "s ! nat (j - 1) \<le> s ! nat j"
    using j ld(3) by (intro sorted_nth_le[OF assms(1)]) simp_all
  have p95: "exact_cut_point s 20 19 = (s ! nat (j - 1) * of_int (20 - d) + s ! nat j * of_int d) / of_int 20"
    by (simp add: exact_cut_point_def Let_def ld_def j_def d_def)
  have "exact_cut_point s 20 19 \<le> s ! nat j"
    unfolding p95 by (intro interp_upper[OF sj d]) simp
  also have "s ! nat j \<le> s ! (length s - 1)"
    using j ld(3) by (intro sorted_nth_le[OF assms(1)]) simp_all
  finally show ?thesis .
qed

lemma exact_cut_point_99_upper:
  assumes "sorted s" "99 \<le> length s"
  shows "exact_cut_point s 100 99 \<le> s ! (length s - 1)"
proof -
  define ld where "ld = len s"
  define j where "j = cut_index ld 100 99"
  define d where "d = cut_delta ld 100 99"
  have ld: "99 \<le> ld" "2 \<le> ld" "ld = int (length s)" using assms(2) by (simp_all add: ld_def len_def)
  have j: "1 \<le> j" "j \<le> ld - 1" using cut_index_range[OF ld(2)] by (simp_all add: j_def)
  have d: "d \<le> 100" using cut_delta_99_large[OF ld(1)] by (simp add: d_def)
  have sj: "s ! nat (j - 1) \<le> s ! nat j"
    using j ld(3) by (intro sorted_nth_le[OF assms(1)]) simp_all
  have p99: "exact_cut_point s 100 99 = (s ! nat (j - 1) * of_int (100 - d) + s ! nat j * of_int d) / of_int 100"
    by (simp add: exact_cut_point_def Let_def ld_def j_def d_def)
  have "exact_cut_point s 100 99 \<le> s ! nat j"
    unfolding p99 by (intro interp_upper[OF sj d]) simp
  also have "s ! nat j \<le> s ! (length s - 1)"
    using j ld(3) by (intro sorted_nth_le[OF assms(1)]) simp_all
  finally show ?thesis .
qed

lemma sort_first_Min:
  fixes xs :: "rat list"
  assumes "xs \<noteq> []"
  shows "sort xs ! 0 = Min (set xs)"
proof -
  have n: "0 < length (sort xs)" using assms by simp
  have "Min (set (sort xs)) = sort xs ! 0"
  proof (rule Min_eqI)
    show "finite (set (sort xs))" by simp
    show "sort xs ! 0 \<in> set (sort xs)" using n by (rule nth_mem)
    fix y assume "y \<in> set (sort xs)"
    then obtain i where "i < length (sort xs)" "sort xs ! i = y" by (metis in_set_conv_nth)
    then show "sort xs ! 0 \<le> y" using sorted_nth_mono[OF sorted_sort, of 0 i xs] by simp
  qed
  then show ?thesis by simp
qed

lemma sort_last_Max:
  fixes xs :: "rat list"
  assumes "xs \<noteq> []"
  shows "sort xs ! (length xs - 1) = Max (set xs)"
proof -
  have n: "length xs - 1 < length (sort xs)" using assms by simp
  have "Max (set (sort xs)) = sort xs ! (length xs - 1)"
  proof (rule Max_eqI)
    show "finite (set (sort xs))" by simp
    show "sort xs ! (length xs - 1) \<in> set (sort xs)" using n by (rule nth_mem)
    fix y assume "y \<in> set (sort xs)"
    then obtain i where "i < length (sort xs)" "sort xs ! i = y" by (metis in_set_conv_nth)
    then show "y \<le> sort xs ! (length xs - 1)"
      using sorted_nth_mono[OF sorted_sort, of i "length xs - 1" xs] by auto
  qed
  then show ?thesis by simp
qed

text \<open>
  The cut point in the usual form of a linear interpolation: with \<open>j\<close> the clamped index and
  \<open>x = i * (ld + 1) / n\<close> the fractional rank, it is
  \<open>data[j - 1] + (data[j] - data[j - 1]) * (x - j)\<close>.
\<close>
section \<open>The cut points of durations on a grid\<close>

text \<open>
  On a grid, the two percentiles are the unrounded cut points rounded once, by the final
  division.
\<close>

lemma cut_point_95_grid:
  assumes "\<forall>d \<in> set s. on_grid k d" "- 1074 \<le> k" "2 \<le> length s"
  shows "cut_point s 20 19 = fl (exact_cut_point s 20 19)"
proof -
  define ld where "ld = len s"
  define j where "j = cut_index ld 20 19"
  define d where "d = cut_delta ld 20 19"
  have ld: "2 \<le> ld" "ld = int (length s)" using assms(3) by (simp_all add: ld_def len_def)
  have j: "1 \<le> j" "j \<le> ld - 1" using cut_index_range[OF ld(1)] by (simp_all add: j_def)
  have d: "0 \<le> d" "d \<le> 37"
    using cut_delta_95_nonneg[OF ld(1)] cut_delta_95_bound[OF ld(1)] by (simp_all add: d_def)
  have "s ! nat (j - 1) \<in> set s" "s ! nat j \<in> set s" using j ld(2) by simp_all
  with assms(1) have g: "on_grid k (s ! nat (j - 1))" "on_grid k (s ! nat j)" by simp_all
  have w: "\<bar>20 - d\<bar> + \<bar>d\<bar> \<le> 512" using d by simp
  have n: "float_of_int 20 = 20" by (simp add: float_of_int_def)
  show ?thesis
    unfolding cut_point_def exact_cut_point_def Let_def ld_def[symmetric] j_def[symmetric]
      d_def[symmetric] grid_interpolation_exact[OF g assms(2) w] n
    by simp
qed

lemma cut_point_99_grid:
  assumes "\<forall>d \<in> set s. on_grid k d" "- 1074 \<le> k" "2 \<le> length s"
  shows "cut_point s 100 99 = fl (exact_cut_point s 100 99)"
proof -
  define ld where "ld = len s"
  define j where "j = cut_index ld 100 99"
  define d where "d = cut_delta ld 100 99"
  have ld: "2 \<le> ld" "ld = int (length s)" using assms(3) by (simp_all add: ld_def len_def)
  have j: "1 \<le> j" "j \<le> ld - 1" using cut_index_range[OF ld(1)] by (simp_all add: j_def)
  have d: "0 \<le> d" "d \<le> 197"
    using cut_delta_99_nonneg[OF ld(1)] cut_delta_99_bound[OF ld(1)] by (simp_all add: d_def)
  have "s ! nat (j - 1) \<in> set s" "s ! nat j \<in> set s" using j ld(2) by simp_all
  with assms(1) have g: "on_grid k (s ! nat (j - 1))" "on_grid k (s ! nat j)" by simp_all
  have w: "\<bar>100 - d\<bar> + \<bar>d\<bar> \<le> 512" using d by simp
  have n: "float_of_int 100 = 100" by (simp add: float_of_int_def)
  show ?thesis
    unfolding cut_point_def exact_cut_point_def Let_def ld_def[symmetric] j_def[symmetric]
      d_def[symmetric] grid_interpolation_exact[OF g assms(2) w] n
    by simp
qed

section \<open>What the aggregation returns\<close>

lemma len_sort: "len (sort xs) = len xs"
  by (simp add: len_def)

lemma quantiles_value:
  assumes "1 \<le> n" "2 \<le> length ds"
  shows "quantiles ds n = Inr (map (cut_point (sort ds) n) [1..n - 1])"
  using assms by (simp add: quantiles_def Let_def len_def)

lemma p95_value:
  assumes "2 \<le> length ds"
  shows "ebind (quantiles ds 20) (\<lambda>q. index q 18) = Inr (cut_point (sort ds) 20 19)"
  using assms by (simp add: quantiles_value ebind_def index_def len_def Let_def)

lemma p99_value:
  assumes "2 \<le> length ds"
  shows "ebind (quantiles ds 100) (\<lambda>q. index q 98) = Inr (cut_point (sort ds) 100 99)"
  using assms by (simp add: quantiles_value ebind_def index_def len_def Let_def)

lemma py_min_value: "ds \<noteq> [] \<Longrightarrow> py_min ds = Inr (Min (set ds))"
proof (cases ds)
  case (Cons x xs)
  have "fold min xs x = Min (set (x # xs))" by (simp only: Min.set_eq_fold)
  with Cons show ?thesis by (simp only: py_min.simps)
qed simp

lemma py_max_value: "ds \<noteq> [] \<Longrightarrow> py_max ds = Inr (Max (set ds))"
proof (cases ds)
  case (Cons x xs)
  have "fold max xs x = Max (set (x # xs))" by (simp only: Max.set_eq_fold)
  with Cons show ?thesis by (simp only: py_max.simps)
qed simp

lemma mean_value: "ds \<noteq> [] \<Longrightarrow> mean ds = Inr (fl (sum_list ds / of_int (len ds)))"
  by (cases ds) (simp_all add: mean_def len_def)

lemma sort_Nil_iff: "sort xs = [] \<longleftrightarrow> xs = []"
  by (metis length_0_conv length_sort)

lemma median_value:
  "ds \<noteq> [] \<Longrightarrow> median ds =
     Inr (if len ds mod 2 = 1 then sort ds ! nat (len ds div 2)
          else fl (float_add (sort ds ! nat (len ds div 2 - 1)) (sort ds ! nat (len ds div 2))
                   / float_of_int 2))"
  by (simp add: median_def Let_def len_def sort_Nil_iff)

lemma median_returns: "ds \<noteq> [] \<Longrightarrow> \<exists>md. median ds = Inr md"
  using median_value by blast

lemma index_first: "ds \<noteq> [] \<Longrightarrow> index ds 0 = Inr (ds ! 0)"
  by (cases ds) (simp_all add: index_def len_def)

lemma success_rate_value:
  "ds \<noteq> [] \<Longrightarrow> 0 \<le> e \<Longrightarrow> int_truediv (len ds) (len ds + e) = Inr (fl (of_int (len ds) / of_int (len ds + e)))"
  by (cases ds) (simp_all add: int_truediv_def len_def)

lemma summary_sync_value:
  assumes "ds \<noteq> []" "tt \<noteq> 0" "0 \<le> e"
  shows "\<exists>md. median ds = Inr md \<and> summary_sync ds e tt =
     Inr [(''total_time'', PyFloat tt),
          (''requests_per_second'', PyFloat (fl (float_of_int (len ds) / tt))),
          (''mean_latency'', PyFloat (fl (sum_list ds / of_int (len ds)))),
          (''median_latency'', PyFloat md),
          (''p95_latency'', PyFloat (if 1 < len ds then cut_point (sort ds) 20 19 else ds ! 0)),
          (''p99_latency'', PyFloat (if 1 < len ds then cut_point (sort ds) 100 99 else ds ! 0)),
          (''min_latency'', PyFloat (Min (set ds))),
          (''max_latency'', PyFloat (Max (set ds))),
          (''errors'', PyInt e),
          (''success_rate'', PyFloat (fl (of_int (len ds) / of_int (len ds + e))))]"
proof -
  obtain md where md: "median ds = Inr md" using median_returns[OF assms(1)] by blast
  have rps: "float_truediv (float_of_int (len ds)) tt = Inr (fl (float_of_int (len ds) / tt))"
    using assms(2) by (simp add: float_truediv_def)
  have p95: "(if len ds > 1 then ebind (quantiles ds 20) (\<lambda>q. index q 18) else index ds 0)
              = Inr (if 1 < len ds then cut_point (sort ds) 20 19 else ds ! 0)"
    using assms(1) by (simp add: p95_value index_first len_def)
  have p99: "(if len ds > 1 then ebind (quantiles ds 100) (\<lambda>q. index q 98) else index ds 0)
              = Inr (if 1 < len ds then cut_point (sort ds) 100 99 else ds ! 0)"
    using assms(1) by (simp add: p99_value index_first len_def)
  have "summary_sync ds e tt = Inr [(''total_time'', PyFloat tt),
          (''requests_per_second'', PyFloat (fl (float_of_int (len ds) / tt))),
          (''mean_latency'', PyFloat (fl (sum_list ds / of_int (len ds)))),
          (''median_latency'', PyFloat md),
          (''p95_latency'', PyFloat (if 1 < len ds then cut_point (sort ds) 20 19 else ds ! 0)),
          (''p99_latency'', PyFloat (if 1 < len ds then cut_point (sort ds) 100 99 else ds ! 0)),
          (''min_latency'', PyFloat (Min (set ds))),
          (''max_latency'', PyFloat (Max (set ds))),
          (''errors'', PyInt e),
          (''success_rate'', PyFloat (fl (of_int (len ds) / of_int (len ds + e))))]"
    unfolding summary_sync_def p95 p99 rps md mean_value[OF assms(1)] py_min_value[OF assms(1)]
      py_max_value[OF assms(1)] success_rate_value[OF assms(1,3)]
    using assms(1) by (simp add: ebind_def)
  with md show ?thesis by blast
qed

lemma summary_async_eq: "summary_async = summary_sync"
  by (intro ext) (simp add: summary_async_def summary_sync_def)

text \<open>The four entries of the summary that the claims on percentiles read.\<close>

lemma summary_percentiles:
  assumes "2 \<le> length ds" "tt \<noteq> 0" "0 \<le> e"
  shows "\<exists>s. summary_sync ds e tt = Inr s \<and> summary_async ds e tt = Inr s
     \<and> map_of s ''p95_latency'' = Some (PyFloat (cut_point (sort ds) 20 19))
     \<and> map_of s ''p99_latency'' = Some (PyFloat (cut_point (sort ds) 100 99))
     \<and> map_of s ''min_latency'' = Some (PyFloat (Min (set ds)))
     \<and> map_of s ''max_latency'' = Some (PyFloat (Max (set ds)))"
proof -
  have ne: "ds \<noteq> []" using assms(1) by auto
  have gt: "1 < len ds" using assms(1) by (simp add: len_def)
  from summary_sync_value[OF ne assms(2,3)] obtain md where
    "summary_sync ds e tt =
     Inr [(''total_time'', PyFloat tt),
          (''requests_per_second'', PyFloat (fl (float_of_int (len ds) / tt))),
          (''mean_latency'', PyFloat (fl (sum_list ds / of_int (len ds)))),
          (''median_latency'', PyFloat md),
          (''p95_latency'', PyFloat (if 1 < len ds then cut_point (sort ds) 20 19 else ds ! 0)),
          (''p99_latency'', PyFloat (if 1 < len ds then cut_point (sort ds) 100 99 else ds ! 0)),
          (''min_latency'', PyFloat (Min (set ds))),
          (''max_latency'', PyFloat (Max (set ds))),
          (''errors'', PyInt e),
          (''success_rate'', PyFloat (fl (of_int (len ds) / of_int (len ds + e))))]"
    by blast
  then show ?thesis using gt by (simp add: summary_async_eq)
qed

section \<open>The summary under permutation of the durations\<close>

lemma sort_cong_mset:
  fixes xs ys :: "rat list"
  assumes "mset xs = mset ys"
  shows "sort xs = sort ys"
proof (rule properties_for_sort)
  show "mset (sort ys) = mset xs" using assms by simp
  show "sorted (sort ys)" by (rule sorted_sort)
qed

lemma len_cong_mset:
  assumes "mset xs = mset ys"
  shows "len xs = len ys"
  using mset_eq_length[OF assms] by (simp add: len_def)

lemma sum_list_cong_mset:
  fixes xs ys :: "rat list"
  assumes "mset xs = mset ys"
  shows "sum_list xs = sum_list ys"
proof -
  have "sum_mset (mset xs) = sum_mset (mset ys)" by (simp only: assms)
  then show ?thesis by (simp only: sum_mset_sum_list)
qed

lemma mean_cong_mset:
  assumes "mset xs = mset ys"
  shows "mean xs = mean ys"
  unfolding mean_def len_cong_mset[OF assms] sum_list_cong_mset[OF assms] by (rule refl)

lemma median_cong_mset:
  assumes "mset xs = mset ys"
  shows "median xs = median ys"
  unfolding median_def sort_cong_mset[OF assms] by (rule refl)

lemma quantiles_cong_mset:
  assumes "mset xs = mset ys"
  shows "quantiles xs n = quantiles ys n"
  unfolding quantiles_def sort_cong_mset[OF assms] by (rule refl)

lemma Nil_cong_mset:
  assumes "mset xs = mset ys"
  shows "xs = [] \<longleftrightarrow> ys = []"
proof -
  have "xs = [] \<longleftrightarrow> mset xs = {#}" by simp
  also have "\<dots> \<longleftrightarrow> mset ys = {#}" by (simp only: assms)
  also have "\<dots> \<longleftrightarrow> ys = []" by simp
  finally show ?thesis .
qed

lemma py_min_cong_mset:
  assumes "mset xs = mset ys"
  shows "py_min xs = py_min ys"
proof (cases "xs = []")
  case True
  then show ?thesis using Nil_cong_mset[OF assms] by simp
next
  case False
  then have "ys \<noteq> []" using Nil_cong_mset[OF assms] by simp
  moreover have "set xs = set ys" using assms by (rule mset_eq_setD)
  ultimately show ?thesis using False by (simp add: py_min_value)
qed

lemma py_max_cong_mset:
  assumes "mset xs = mset ys"
  shows "py_max xs = py_max ys"
proof (cases "xs = []")
  case True
  then show ?thesis using Nil_cong_mset[OF assms] by simp
next
  case False
  then have "ys \<noteq> []" using Nil_cong_mset[OF assms] by simp
  moreover have "set xs = set ys" using assms by (rule mset_eq_setD)
  ultimately show ?thesis using False by (simp add: py_max_value)
qed

text \<open>A list of at most one element is its only permutation.\<close>

lemma short_cong_mset:
  assumes "mset xs = mset ys" "\<not> 1 < len xs"
  shows "xs = ys"
proof -
  have "length xs \<le> 1" using assms(2) by (simp add: len_def)
  moreover have "length ys = length xs" using mset_eq_length[OF assms(1)] by simp
  ultimately have short: "length xs \<le> 1" "length ys \<le> 1" by simp_all
  show ?thesis
  proof (cases xs)
    case Nil
    then show ?thesis using Nil_cong_mset[OF assms(1)] by simp
  next
    case (Cons x xs')
    with short(1) have xs: "xs = [x]" by simp
    then have "mset ys = {#x#}" using assms(1) by simp
    then have "ys = [x]" by (simp only: mset_single_iff)
    with xs show ?thesis by simp
  qed
qed

lemma percentile_cong_mset:
  assumes "mset xs = mset ys"
  shows "(if len xs > 1 then ebind (quantiles xs n) (\<lambda>q. index q k) else index xs 0)
       = (if len ys > 1 then ebind (quantiles ys n) (\<lambda>q. index q k) else index ys 0)"
proof (cases "1 < len xs")
  case True
  then show ?thesis using len_cong_mset[OF assms] quantiles_cong_mset[OF assms] by simp
next
  case False
  then show ?thesis using short_cong_mset[OF assms False] by simp
qed

lemma summary_sync_cong_mset:
  assumes "mset xs = mset ys"
  shows "summary_sync xs e t = summary_sync ys e t"
  unfolding summary_sync_def
    percentile_cong_mset[OF assms, of 20 18] percentile_cong_mset[OF assms, of 100 98]
  unfolding mean_cong_mset[OF assms] median_cong_mset[OF assms] py_min_cong_mset[OF assms]
    py_max_cong_mset[OF assms] len_cong_mset[OF assms] Nil_cong_mset[OF assms]
  by (rule refl)

text \<open>The summary of three durations and one error, by evaluation.\<close>

section \<open>The collection loops of the drivers\<close>

text \<open>Whatever the picks, the futures come out of \<open>as_completed\<close> once each.\<close>

lemma mset_as_completed: "mset (as_completed picks futures) = mset futures"
proof (induction picks arbitrary: futures)
  case Nil
  then show ?case by simp
next
  case (Cons p picks)
  show ?case
  proof (cases "futures = []")
    case True
    then show ?thesis by simp
  next
    case False
    define k where "k = p mod length futures"
    have k: "k < length futures" using False by (simp add: k_def)
    have "mset futures = mset (take k futures @ futures ! k # drop (Suc k) futures)"
      using id_take_nth_drop[OF k] by simp
    also have "\<dots> = add_mset (futures ! k) (mset (take k futures @ drop (Suc k) futures))"
      by simp
    finally show ?thesis using False Cons.IH[of "take k futures @ drop (Suc k) futures"]
      by (simp add: Let_def k_def)
  qed
qed

lemma length_as_completed: "length (as_completed picks futures) = length futures"
  using mset_eq_length[OF mset_as_completed] .

lemma set_as_completed: "set (as_completed picks futures) = set futures"
  using mset_eq_setD[OF mset_as_completed] .

text \<open>
  Each round of the collection loops appends one duration or counts one error, so the two
  together grow by one for every result that is read.
\<close>

lemma collect_sync_count:
  "collect_sync futures durations errors = Inr (durations', errors')
    \<Longrightarrow> len durations' + errors' = len durations + errors + len futures"
proof (induction futures arbitrary: durations errors)
  case Nil
  then show ?case by (simp add: len_def)
next
  case (Cons future rest)
  show ?case
  proof (cases future)
    case (Inl e)
    with Cons.prems show ?thesis by simp
  next
    case (Inr result)
    show ?thesis
    proof (cases "success result")
      case True
      with Cons.prems Inr
      have "collect_sync rest (durations @ [duration result]) errors = Inr (durations', errors')"
        by simp
      from Cons.IH[OF this] show ?thesis by (simp add: len_def)
    next
      case False
      with Cons.prems Inr
      have "collect_sync rest durations (errors + 1) = Inr (durations', errors')"
        by simp
      from Cons.IH[OF this] show ?thesis by (simp add: len_def)
    qed
  qed
qed

lemma collect_async_count:
  "collect_async results durations errors = (durations', errors')
    \<Longrightarrow> len durations' + errors' = len durations + errors + len results"
proof (induction results arbitrary: durations errors)
  case Nil
  then show ?case by (simp add: len_def)
next
  case (Cons result rest)
  show ?case
  proof (cases "success result")
    case True
    with Cons.prems
    have "collect_async rest (durations @ [duration result]) errors = (durations', errors')"
      by simp
    from Cons.IH[OF this] show ?thesis by (simp add: len_def)
  next
    case False
    with Cons.prems
    have "collect_async rest durations (errors + 1) = (durations', errors')"
      by simp
    from Cons.IH[OF this] show ?thesis by (simp add: len_def)
  qed
qed
text \<open>\<^verbatim>\<open>gather\<close> returns when no task raises, and then one result for each task.\<close>

lemma first_raised_None: "first_raised tasks = None \<longleftrightarrow> (\<forall>task \<in> set tasks. \<exists>v. task = Inr v)"
proof (induction tasks)
  case Nil
  then show ?case by simp
next
  case (Cons task tasks)
  then show ?case by (cases task) simp_all
qed

lemma length_returned:
  "\<forall>task \<in> set tasks. \<exists>v. task = Inr v \<Longrightarrow> length (returned tasks) = length tasks"
proof (induction tasks)
  case Nil
  then show ?case by simp
next
  case (Cons task tasks)
  then show ?case by (cases task) simp_all
qed

lemma gather_length:
  assumes "gather picks tasks = Inr results"
  shows "length results = length tasks"
proof -
  from assms have n: "first_raised (as_completed picks tasks) = None" and r: "results = returned tasks"
    by (auto simp: gather_def split: option.splits)
  from n have "\<forall>task \<in> set tasks. \<exists>v. task = Inr v"
    by (simp add: first_raised_None set_as_completed)
  from length_returned[OF this] r show ?thesis by simp
qed

lemma gather_returns:
  assumes "\<forall>task \<in> set tasks. \<exists>result. task = Inr result"
  shows "gather picks tasks = Inr (returned tasks)"
proof -
  from assms have "first_raised (as_completed picks tasks) = None"
    by (simp add: first_raised_None set_as_completed)
  then show ?thesis by (simp add: gather_def)
qed

lemma probes_sync_count:
  assumes "probes_sync worlds picks service_name url endpoint num_requests = Inr (durations, errors)"
  shows "0 < num_requests \<and> len durations + errors = num_requests"
proof -
  have pos: "0 < num_requests"
    using assms by (simp add: probes_sync_def split: if_splits)
  let ?futures = "map (\<lambda>i. test_single_request (worlds i) service_name url endpoint)
                    [0..<nat num_requests]"
  have "collect_sync (as_completed picks ?futures) [] 0 = Inr (durations, errors)"
    using assms pos by (simp add: probes_sync_def Let_def)
  from collect_sync_count[OF this] have "len durations + errors = int (length ?futures)"
    by (simp add: len_def length_as_completed)
  with pos show ?thesis by simp
qed

lemma probes_async_count:
  assumes "probes_async worlds picks url endpoint num_requests = Inr (durations, errors)"
    and "0 \<le> num_requests"
  shows "len durations + errors = num_requests"
proof -
  let ?tasks = "map (\<lambda>i. make_request (worlds i) url endpoint) [0..<nat num_requests]"
  from assms(1) obtain results where g: "gather picks ?tasks = Inr results"
    and c: "collect_async results [] 0 = (durations, errors)"
    by (cases "gather picks ?tasks") (auto simp: probes_async_def Let_def ebind_def)
  from collect_async_count[OF c] gather_length[OF g] assms(2) show ?thesis
    by (simp add: len_def)
qed

text \<open>
  A probe returns a result unless the request is interrupted by an exception outside
  \<^verbatim>\<open>Exception\<close>.
\<close>

lemma test_single_request_returns:
  assumes "\<forall>e. http_get w (url @ endpoint) = Inl e \<longrightarrow> is_Exception e"
  shows "\<exists>result. test_single_request w service_name url endpoint = Inr result"
  using assms by (cases "http_get w (url @ endpoint)") (simp_all add: test_single_request_def)

lemma make_request_returns:
  assumes "\<forall>e. http_get w (url @ endpoint) = Inl e \<longrightarrow> is_Exception e"
  shows "\<exists>result. make_request w url endpoint = Inr result"
  using assms by (cases "http_get w (url @ endpoint)") (simp_all add: make_request_def)

lemma collect_sync_returns:
  assumes "\<forall>future \<in> set futures. \<exists>result. future = Inr result"
  shows "\<exists>r. collect_sync futures durations errors = Inr r"
  using assms
proof (induction futures arbitrary: durations errors)
  case Nil
  then show ?case by simp
next
  case (Cons future rest)
  then obtain result where "future = Inr result" by auto
  with Cons show ?case by simp
qed

lemma probes_sync_returns:
  assumes "0 < num_requests"
    and "\<forall>i<nat num_requests. \<forall>e. http_get (worlds i) (url @ endpoint) = Inl e \<longrightarrow> is_Exception e"
  shows "\<exists>durations errors.
           probes_sync worlds picks service_name url endpoint num_requests = Inr (durations, errors)"
proof -
  let ?futures = "map (\<lambda>i. test_single_request (worlds i) service_name url endpoint)
                    [0..<nat num_requests]"
  have "\<forall>future \<in> set (as_completed picks ?futures). \<exists>result. future = Inr result"
  proof
    fix future assume "future \<in> set (as_completed picks ?futures)"
    then have "future \<in> set ?futures" by (simp only: set_as_completed)
    then obtain i where i: "i < nat num_requests"
      "future = test_single_request (worlds i) service_name url endpoint" by auto
    with test_single_request_returns[of "worlds i" url endpoint service_name] assms(2)
    show "\<exists>result. future = Inr result" by simp
  qed
  from collect_sync_returns[OF this, of "[]" 0] obtain r where
    "collect_sync (as_completed picks ?futures) [] 0 = Inr r" by blast
  then show ?thesis using assms(1) by (cases r) (simp add: probes_sync_def Let_def)
qed

lemma probes_async_returns:
  assumes "\<forall>i<nat num_requests. \<forall>e. http_get (worlds i) (url @ endpoint) = Inl e \<longrightarrow> is_Exception e"
  shows "\<exists>durations errors.
           probes_async worlds picks url endpoint num_requests = Inr (durations, errors)"
proof -
  let ?tasks = "map (\<lambda>i. make_request (worlds i) url endpoint) [0..<nat num_requests]"
  have "\<forall>task \<in> set ?tasks. \<exists>result. task = Inr result"
  proof
    fix task assume "task \<in> set ?tasks"
    then obtain i where i: "i < nat num_requests" "task = make_request (worlds i) url endpoint"
      by auto
    with make_request_returns[of "worlds i" url endpoint] assms
    show "\<exists>result. task = Inr result" by simp
  qed
  from gather_returns[OF this] have "gather picks ?tasks = Inr (returned ?tasks)" .
  then show ?thesis
    by (cases "collect_async (returned ?tasks) [] 0") (simp add: probes_async_def Let_def ebind_def)
qed

lemma collect_sync_errors_mono:
  "collect_sync futures durations errors = Inr (durations', errors') \<Longrightarrow> errors \<le> errors'"
proof (induction futures arbitrary: durations errors)
  case Nil
  then show ?case by simp
next
  case (Cons future rest)
  show ?case
  proof (cases future)
    case (Inl e)
    with Cons.prems show ?thesis by simp
  next
    case (Inr result)
    show ?thesis
    proof (cases "success result")
      case True
      with Cons.prems Inr
      have "collect_sync rest (durations @ [duration result]) errors = Inr (durations', errors')"
        by simp
      from Cons.IH[OF this] show ?thesis .
    next
      case False
      with Cons.prems Inr
      have "collect_sync rest durations (errors + 1) = Inr (durations', errors')"
        by simp
      from Cons.IH[OF this] show ?thesis by simp
    qed
  qed
qed

lemma collect_async_errors_mono:
  "collect_async results durations errors = (durations', errors') \<Longrightarrow> errors \<le> errors'"
proof (induction results arbitrary: durations errors)
  case Nil
  then show ?case by simp
next
  case (Cons result rest)
  show ?case
  proof (cases "success result")
    case True
    with Cons.prems
    have "collect_async rest (durations @ [duration result]) errors = (durations', errors')"
      by simp
    from Cons.IH[OF this] show ?thesis .
  next
    case False
    with Cons.prems
    have "collect_async rest durations (errors + 1) = (durations', errors')"
      by simp
    from Cons.IH[OF this] show ?thesis by simp
  qed
qed

lemma probes_sync_errors_nonneg:
  assumes "probes_sync worlds picks service_name url endpoint num_requests = Inr (durations, errors)"
  shows "0 \<le> errors"
proof -
  let ?futures = "map (\<lambda>i. test_single_request (worlds i) service_name url endpoint)
                    [0..<nat num_requests]"
  have "collect_sync (as_completed picks ?futures) [] 0 = Inr (durations, errors)"
    using assms by (simp add: probes_sync_def Let_def split: if_splits)
  from collect_sync_errors_mono[OF this] show ?thesis .
qed

lemma probes_async_errors_nonneg:
  assumes "probes_async worlds picks url endpoint num_requests = Inr (durations, errors)"
  shows "0 \<le> errors"
proof -
  let ?tasks = "map (\<lambda>i. make_request (worlds i) url endpoint) [0..<nat num_requests]"
  from assms obtain results where c: "collect_async results [] 0 = (durations, errors)"
    by (cases "gather picks ?tasks") (auto simp: probes_async_def Let_def ebind_def)
  from collect_async_errors_mono[OF c] show ?thesis .
qed

text \<open>The two sample runs, by evaluation.\<close>

lemma mixed_probes_sync:
  "probes_sync mixed_worlds [2, 0] ''quart-native'' ''http://localhost:5004'' ''/parallel'' 3
     = Inr ([3, 1], 1)"
  by (simp add: probes_sync_def test_single_request_def float_sub_def Let_def upt_rec)

lemma mixed_probes_async:
  "probes_async mixed_worlds [1] ''http://localhost:5004'' ''/parallel'' 3 = Inr ([1, 3], 1)"
  by (simp add: probes_async_def make_request_def gather_def float_sub_def Let_def ebind_def
      upt_rec)

lemma failing_probes_sync:
  "probes_sync failing_worlds [1] ''flask-wsgi'' ''http://localhost:5001'' ''/slow'' 2
     = Inr ([], 2)"
  by (simp add: probes_sync_def test_single_request_def float_sub_def Let_def upt_rec)

lemma failing_probes_async:
  "probes_async failing_worlds [] ''http://localhost:5001'' ''/slow'' 2 = Inr ([], 2)"
  by (simp add: probes_async_def make_request_def gather_def float_sub_def Let_def ebind_def
      upt_rec)

lemma mixed_worlds_settle:
  "\<forall>i<nat 3. \<forall>e. http_get (mixed_worlds i) (''http://localhost:5004'' @ ''/parallel'') = Inl e
      \<longrightarrow> is_Exception e"
  by auto

section \<open>Sample values\<close>

text \<open>Some roundings, by evaluation of \<open>fl\<close>.\<close>

lemma fl_samples:
  "fl (1 / 2) = 1 / 2"
  "fl (3 / 2) = 3 / 2"
  "fl (3 / 4) = 3 / 4"
  "fl (2 / 3) = 6004799503160661 / 9007199254740992"
  "fl (7 / 10) = 3152519739159347 / 4503599627370496"
  "fl (57 / 20) = 6417629469002957 / 2251799813685248"
  "fl (297 / 100) = 6687845446645187 / 2251799813685248"
  "fl (19 / 5) = 4278419646001971 / 1125899906842624"
  "fl (99 / 25) = 4458563631096791 / 1125899906842624"
  "fl (47 / 10) = 5291729562160333 / 1125899906842624"
  "fl (247 / 50) = 5561945539802563 / 1125899906842624"
  "fl (1 / 100) = 5764607523034235 / 576460752303423488"
  "fl (101 / 100) = 4548635623644201 / 4503599627370496"
  "fl (3819 / 20) = 3359227925181235 / 17592186044416"
  "fl (19899 / 100) = 875167275244585 / 4398046511104"
  "fl (3152519739159347 / 4503599627370496) = 3152519739159347 / 4503599627370496"
  by code_simp+

text \<open>The two percentiles of the sample \<open>[0.7, 0.7]\<close>, by evaluation.\<close>

lemma cut_points_of_constant_sample:
  "cut_point [3152519739159347 / 4503599627370496, 3152519739159347 / 4503599627370496] 20 19
     = 3152519739159347 / 4503599627370496"
  "cut_point [3152519739159347 / 4503599627370496, 3152519739159347 / 4503599627370496] 100 99
     = 6305039478318693 / 9007199254740992"
  by code_simp+




text \<open>Summaries of small samples, by evaluation.\<close>

lemma summary_of_two:
  "summary_sync [1, 2] 0 1 =
     Inr [(''total_time'', PyFloat 1), (''requests_per_second'', PyFloat 2),
          (''mean_latency'', PyFloat (3 / 2)), (''median_latency'', PyFloat (3 / 2)),
          (''p95_latency'', PyFloat (6417629469002957 / 2251799813685248)),
          (''p99_latency'', PyFloat (6687845446645187 / 2251799813685248)),
          (''min_latency'', PyFloat 1), (''max_latency'', PyFloat 2),
          (''errors'', PyInt 0), (''success_rate'', PyFloat 1)]"
  by (simp add: summary_sync_def ebind_def float_truediv_def int_truediv_def mean_def median_def
      quantiles_def index_def len_def cut_point_def cut_index_def cut_delta_def float_add_def
      float_mul_def float_of_int_def Let_def fl_samples)

lemma summary_of_three:
  "summary_sync [1, 2, 3] 0 1 =
     Inr [(''total_time'', PyFloat 1), (''requests_per_second'', PyFloat 3),
          (''mean_latency'', PyFloat 2), (''median_latency'', PyFloat 2),
          (''p95_latency'', PyFloat (4278419646001971 / 1125899906842624)),
          (''p99_latency'', PyFloat (4458563631096791 / 1125899906842624)),
          (''min_latency'', PyFloat 1), (''max_latency'', PyFloat 3),
          (''errors'', PyInt 0), (''success_rate'', PyFloat 1)]"
  by (simp add: summary_sync_def ebind_def float_truediv_def int_truediv_def mean_def median_def
      quantiles_def index_def len_def cut_point_def cut_index_def cut_delta_def float_add_def
      float_mul_def float_of_int_def Let_def fl_samples)

lemma summary_sync_three:
  "summary_sync [3, 1, 2] 1 2 =
      Inr [(''total_time'', PyFloat 2), (''requests_per_second'', PyFloat (3 / 2)),
           (''mean_latency'', PyFloat 2), (''median_latency'', PyFloat 2),
           (''p95_latency'', PyFloat (4278419646001971 / 1125899906842624)),
           (''p99_latency'', PyFloat (4458563631096791 / 1125899906842624)),
           (''min_latency'', PyFloat 1), (''max_latency'', PyFloat 3),
           (''errors'', PyInt 1), (''success_rate'', PyFloat (3 / 4))]"
  by (simp add: summary_sync_def ebind_def float_truediv_def int_truediv_def mean_def median_def
      quantiles_def index_def len_def cut_point_def cut_index_def cut_delta_def float_add_def
      float_mul_def float_of_int_def Let_def fl_samples)

lemma mixed_summary:
  "summary_sync [3, 1] 1 4 =
     Inr [(''total_time'', PyFloat 4), (''requests_per_second'', PyFloat (1 / 2)),
          (''mean_latency'', PyFloat 2), (''median_latency'', PyFloat 2),
          (''p95_latency'', PyFloat (5291729562160333 / 1125899906842624)),
          (''p99_latency'', PyFloat (5561945539802563 / 1125899906842624)),
          (''min_latency'', PyFloat 1), (''max_latency'', PyFloat 3),
          (''errors'', PyInt 1),
          (''success_rate'', PyFloat (6004799503160661 / 9007199254740992))]"
  by (simp add: summary_sync_def ebind_def float_truediv_def int_truediv_def mean_def median_def
      quantiles_def index_def len_def cut_point_def cut_index_def cut_delta_def float_add_def
      float_mul_def float_of_int_def Let_def fl_samples)

lemma summary_of_constant_sample:
  "summary_sync [3152519739159347 / 4503599627370496, 3152519739159347 / 4503599627370496] 0 1 =
     Inr [(''total_time'', PyFloat 1), (''requests_per_second'', PyFloat 2),
          (''mean_latency'', PyFloat (3152519739159347 / 4503599627370496)),
          (''median_latency'', PyFloat (3152519739159347 / 4503599627370496)),
          (''p95_latency'', PyFloat (3152519739159347 / 4503599627370496)),
          (''p99_latency'', PyFloat (6305039478318693 / 9007199254740992)),
          (''min_latency'', PyFloat (3152519739159347 / 4503599627370496)),
          (''max_latency'', PyFloat (3152519739159347 / 4503599627370496)),
          (''errors'', PyInt 0), (''success_rate'', PyFloat 1)]"
proof -
  let ?a = "3152519739159347 / 4503599627370496 :: rat"
  have srt: "sort [?a, ?a] = [?a, ?a]" by simp
  have md: "median [?a, ?a] = Inr ?a" by code_simp
  have mn: "mean [?a, ?a] = Inr ?a" by code_simp
  have p95: "ebind (quantiles [?a, ?a] 20) (\<lambda>q. index q 18) = Inr ?a"
    using p95_value[of "[?a, ?a]"] unfolding srt cut_points_of_constant_sample by simp
  have p99: "ebind (quantiles [?a, ?a] 100) (\<lambda>q. index q 98)
               = Inr (6305039478318693 / 9007199254740992)"
    using p99_value[of "[?a, ?a]"] unfolding srt cut_points_of_constant_sample by simp
  show ?thesis
    unfolding summary_sync_def md mn p95 p99
    by (simp add: ebind_def float_truediv_def int_truediv_def len_def float_of_int_def)
qed

section \<open>The entries of the summary that count probes\<close>

lemma summary_counts:
  assumes "0 \<le> e" and "ds \<noteq> [] \<longrightarrow> tt \<noteq> 0"
  shows "\<exists>s. summary_sync ds e tt = Inr s \<and> summary_async ds e tt = Inr s
     \<and> map_of s ''errors'' = Some (PyInt e)
     \<and> map_of s ''success_rate''
         = Some (if ds = [] then PyInt 0
                 else PyFloat (fl (of_int (len ds) / of_int (len ds + e))))"
proof (cases "ds = []")
  case True
  then show ?thesis by (simp add: summary_async_eq summary_sync_def)
next
  case False
  with assms(2) have tt: "tt \<noteq> 0" by simp
  from summary_sync_value[OF False tt assms(1)] obtain md where
    "summary_sync ds e tt =
     Inr [(''total_time'', PyFloat tt),
          (''requests_per_second'', PyFloat (fl (float_of_int (len ds) / tt))),
          (''mean_latency'', PyFloat (fl (sum_list ds / of_int (len ds)))),
          (''median_latency'', PyFloat md),
          (''p95_latency'', PyFloat (if 1 < len ds then cut_point (sort ds) 20 19 else ds ! 0)),
          (''p99_latency'', PyFloat (if 1 < len ds then cut_point (sort ds) 100 99 else ds ! 0)),
          (''min_latency'', PyFloat (Min (set ds))),
          (''max_latency'', PyFloat (Max (set ds))),
          (''errors'', PyInt e),
          (''success_rate'', PyFloat (fl (of_int (len ds) / of_int (len ds + e))))]"
    by blast
  then show ?thesis using False by (simp add: summary_async_eq)
qed

text \<open>The total times of the sample runs.\<close>

lemma sample_total_time: "float_sub 14 10 = 4" "float_sub 24 20 = 4" "float_sub 12 10 = 2"
  by (simp_all add: float_sub_def)

section \<open>The trace of the readiness gate\<close>

text \<open>
  While the health endpoint answers, whatever the status code, the polling loop never
  sleeps: its trace holds requests only.
\<close>

lemma poll_loop_no_sleep:
  assumes "\<forall>entry \<in> set script. \<exists>code. snd entry = Inr code"
  shows "set (snd (poll_loop start timeout now script)) \<subseteq> {Request}"
  using assms
proof (induction script arbitrary: now)
  case Nil
  then show ?case by simp
next
  case (Cons entry script)
  obtain latency response where entry: "entry = (latency, response)" by (cases entry)
  with Cons.prems obtain code where code: "response = Inr code" by auto
  from Cons.prems have "\<forall>entry \<in> set script. \<exists>code. snd entry = Inr code" by simp
  from Cons.IH[OF this, of "now + latency"] show ?case
    unfolding entry code by (auto split: prod.splits)
qed

section \<open>The percentiles of durations on a grid\<close>

lemma percentiles_on_grid:
  assumes "2 \<le> length durations" "\<forall>d \<in> set durations. on_grid k d" "- 1074 \<le> k"
  shows "cut_point (sort durations) 20 19 = fl (exact_cut_point (sort durations) 20 19)"
    and "cut_point (sort durations) 100 99 = fl (exact_cut_point (sort durations) 100 99)"
proof -
  have g: "\<forall>d \<in> set (sort durations). on_grid k d" using assms(2) by simp
  have n: "2 \<le> length (sort durations)" using assms(1) by simp
  show "cut_point (sort durations) 20 19 = fl (exact_cut_point (sort durations) 20 19)"
    by (rule cut_point_95_grid[OF g assms(3) n])
  show "cut_point (sort durations) 100 99 = fl (exact_cut_point (sort durations) 100 99)"
    by (rule cut_point_99_grid[OF g assms(3) n])
qed

lemma extremes_on_grid:
  fixes durations :: "rat list"
  assumes "durations \<noteq> []" "\<forall>d \<in> set durations. on_grid k d" "- 1074 \<le> k"
  shows "Min (set durations) \<in> doubles" and "Max (set durations) \<in> doubles"
proof -
  have "Min (set durations) \<in> set durations" using assms(1) by (intro Min_in) simp_all
  with assms(2) have "on_grid k (Min (set durations))" by blast
  then show "Min (set durations) \<in> doubles" using assms(3) by (rule grid_double)
  have "Max (set durations) \<in> set durations" using assms(1) by (intro Max_in) simp_all
  with assms(2) have "on_grid k (Max (set durations))" by blast
  then show "Max (set durations) \<in> doubles" using assms(3) by (rule grid_double)
qed

text \<open>A sample of 200 durations, of 1 to 200 seconds.\<close>

lemma int_on_grid: "\<bar>m\<bar> \<le> 2 ^ 44 \<Longrightarrow> on_grid 0 (of_int m)"
  unfolding on_grid_iff by (intro exI[of _ m]) simp

lemma sample_on_grid: "\<forall>d \<in> set (map rat_of_int [1..200]). on_grid 0 d"
proof
  fix d assume "d \<in> set (map rat_of_int [1..200])"
  then obtain m :: int where m: "d = of_int m" "1 \<le> m" "m \<le> 200" by auto
  then have "\<bar>m\<bar> \<le> 2 ^ 44" by simp
  then show "on_grid 0 d" unfolding m(1) by (rule int_on_grid)
qed

lemma sample_bounded: "\<forall>d \<in> set (map rat_of_int [1..200]). \<bar>d\<bar> \<le> 2 ^ 1000"
proof
  fix d assume "d \<in> set (map rat_of_int [1..200])"
  then obtain m :: int where m: "d = of_int m" "1 \<le> m" "m \<le> 200" by auto
  then have "\<bar>m\<bar> \<le> 2 ^ 1000" by simp
  then have "(of_int \<bar>m\<bar> :: rat) \<le> of_int (2 ^ 1000)" by (simp only: of_int_le_iff)
  then show "\<bar>d\<bar> \<le> 2 ^ 1000" unfolding m(1) by simp
qed

lemma sample_sorted: "sort (map rat_of_int [1..200]) = map rat_of_int [1..200]"
proof -
  have "sorted (map rat_of_int [1..200])"
    unfolding sorted_map by (rule sorted_wrt_mono_rel[OF _ sorted_upto]) simp
  then show ?thesis by (rule sorted_sort_id)
qed

lemma sample_length: "length (map rat_of_int [1..200]) = 200"
  by simp

lemma quarter_on_grid: "on_grid (- 22) (1 / 4)" "on_grid (- 22) (1 / 2)"
  unfolding on_grid_iff
  by (intro exI[of _ "2 ^ 20"], simp add: power_int_minus)
     (intro exI[of _ "2 ^ 21"], simp add: power_int_minus)

lemma constant_sample_double: "(3152519739159347 / 4503599627370496 :: rat) \<in> doubles"
  using fl_in_doubles[of "7 / 10"] unfolding fl_samples .

section \<open>The durations a probe measures\<close>

text \<open>
  A reading of \<^verbatim>\<open>time.time()\<close> of at least \<open>2 ^ 30\<close> seconds (any reading since 2004) is a
  multiple of \<open>2 ^ -22\<close> seconds, and the difference of two such readings less than
  \<open>2 ^ 22\<close> seconds apart is computed without rounding: the durations of the probes are on
  the grid of step \<open>2 ^ -22\<close>.
\<close>

lemma multiple_of_smaller_power:
  assumes "E \<le> e"
  shows "\<exists>z :: int. (of_int m :: rat) * 2 powi e = of_int z * 2 powi E"
proof -
  have "(2 :: rat) powi (e - E) * 2 powi E = 2 powi ((e - E) + E)"
    by (rule power_int_add[symmetric]) simp
  then have "(2 :: rat) powi e = 2 powi (e - E) * 2 powi E" by simp
  also have "(2 :: rat) powi (e - E) = 2 ^ nat (e - E)"
    using assms by (simp add: power_int_nonneg_exp)
  finally have "(of_int m :: rat) * 2 powi e = of_int (m * 2 ^ nat (e - E)) * 2 powi E" by simp
  then show ?thesis by blast
qed

lemma clock_reading_multiple:
  assumes "x \<in> doubles" and "2 ^ 30 \<le> x" and "E = - 22"
  shows "\<exists>z :: int. x = of_int z * 2 powi E"
proof -
  have pos: "0 < x" using assms(2) by (rule less_le_trans[rotated]) simp
  then have nz: "x \<noteq> 0" and ax: "\<bar>x\<bar> = x" by simp_all
  define e where "e = max (- 1074) (ilog2 \<bar>x\<bar> - 52)"
  have "(2 :: rat) powi 30 \<le> x" using assms(2) by simp
  also have "x < 2 powi (ilog2 x + 1)" by (rule ilog2_bounds(2)[OF pos])
  finally have lt: "(2 :: rat) powi 30 < 2 powi (ilog2 x + 1)" .
  have "30 < ilog2 x + 1"
  proof (rule ccontr)
    assume "\<not> 30 < ilog2 x + 1"
    then have "ilog2 x + 1 \<le> 30" by simp
    then have "(2 :: rat) powi (ilog2 x + 1) \<le> 2 powi 30" by (rule power_int_increasing) simp
    with lt show False by simp
  qed
  then have e: "E \<le> e" unfolding e_def ax assms(3) by simp
  have "x = fl x" using fl_double[OF assms(1)] by simp
  also have "\<dots> = of_int (round_half_even (x / 2 powi e)) * 2 powi e"
    by (rule fl_nonzero[OF nz e_def])
  finally obtain r :: int where "x = of_int r * 2 powi e" by blast
  with multiple_of_smaller_power[OF e, of r] show ?thesis by simp
qed

lemma clock_difference_on_grid:
  assumes "x \<in> doubles" "y \<in> doubles" and "2 ^ 30 \<le> x" "2 ^ 30 \<le> y"
    and "\<bar>x - y\<bar> \<le> 2 ^ 22"
  shows "on_grid (- 22) (float_sub x y)" and "float_sub x y = x - y"
proof -
  define E :: int where "E = - 22"
  define u :: rat where "u = 2 powi E"
  have u: "0 < u" by (simp add: u_def)
  have uu: "2 ^ 22 * u = 1" by (simp add: u_def E_def power_int_minus)
  from clock_reading_multiple[OF assms(1,3) E_def] clock_reading_multiple[OF assms(2,4) E_def]
  obtain a b :: int where x: "x = of_int a * u" and y: "y = of_int b * u"
    unfolding u_def by blast
  have diff: "x - y = of_int (a - b) * u" by (simp add: x y algebra_simps)
  have "\<bar>of_int (a - b) :: rat\<bar> * u \<le> 2 ^ 22" using assms(5) u by (simp add: diff abs_mult)
  also have "(2 ^ 22 :: rat) = 2 ^ 44 * u"
  proof -
    have "(2 ^ 44 :: rat) * u = 2 ^ 22 * (2 ^ 22 * u)" by simp
    then show ?thesis unfolding uu by simp
  qed
  finally have "\<bar>of_int (a - b) :: rat\<bar> \<le> 2 ^ 44" using u by (simp only: mult_le_cancel_right_pos)
  then have "(of_int \<bar>a - b\<bar> :: rat) \<le> of_int (2 ^ 44)" by simp
  then have m: "\<bar>a - b\<bar> \<le> 2 ^ 44" by (simp only: of_int_le_iff)
  have g: "on_grid E (x - y)" unfolding on_grid_iff using diff m u_def by blast
  have "- 1074 \<le> E" by (simp add: E_def)
  from grid_double[OF g this] have "fl (x - y) = x - y" by (rule fl_double)
  then show eq: "float_sub x y = x - y" by (simp add: float_sub_def)
  show "on_grid (- 22) (float_sub x y)" using g unfolding eq E_def .
qed

section \<open>The claims\<close>

text \<open>
  Claim C7. The summary depends only on the multiset of the successful durations, together
  with the error count and the total time: for every permutation of the duration list, the
  aggregation of either driver returns the same result, every entry unchanged.
\<close>

theorem summary_permutation_invariant:
  assumes "mset durations = mset durations'"
  shows "summary_sync durations errors total_time = summary_sync durations' errors total_time
       \<and> summary_async durations errors total_time = summary_async durations' errors total_time"
  using summary_sync_cong_mset[OF assms] by (simp add: summary_async_eq)

theorem summary_permutation_invariant_witness:
  "mset [3, 1, 2 :: rat] = mset [2, 3, 1]
   \<and> summary_sync [3, 1, 2] 1 2 = summary_sync [2, 3, 1] 1 2
   \<and> summary_async [3, 1, 2] 1 2 = summary_async [2, 3, 1] 1 2
   \<and> summary_sync [2, 3, 1] 1 2 =
      Inr [(''total_time'', PyFloat 2), (''requests_per_second'', PyFloat (3 / 2)),
           (''mean_latency'', PyFloat 2), (''median_latency'', PyFloat 2),
           (''p95_latency'', PyFloat (4278419646001971 / 1125899906842624)),
           (''p99_latency'', PyFloat (4458563631096791 / 1125899906842624)),
           (''min_latency'', PyFloat 1), (''max_latency'', PyFloat 3),
           (''errors'', PyInt 1), (''success_rate'', PyFloat (3 / 4))]"
proof -
  have m: "mset [3, 1, 2 :: rat] = mset [2, 3, 1]" by simp
  from summary_permutation_invariant[OF m, of 1 2] summary_sync_three m show ?thesis by simp
qed

text \<open>
  Claim C2. For every \<open>N \<ge> 1\<close> and every mix of successful and failing probes, whatever
  the order in which the probes complete, each driver returns a summary; its collection
  loop has ended with an error count and a list of successful durations such that the
  error count plus the number of durations equals \<open>N\<close>, the number of probes issued, and
  the summary is the aggregation of these, with that error count under \<^verbatim>\<open>errors\<close>. (A probe
  is successful or failing when its request returns a response or raises an
  \<^verbatim>\<open>Exception\<close>. The driver returns when the total time it measures is not zero, that
  is, when its two clock readings differ: with a successful probe the throughput divides
  by the total time.)
\<close>

theorem count_invariant:
  assumes "1 \<le> N"
    and "\<forall>i<nat N. \<forall>e. http_get (worlds i) (url @ endpoint) = Inl e \<longrightarrow> is_Exception e"
    and "float_sub clock1 clock0 \<noteq> 0"
  shows "(\<exists>durations errors s.
            test_concurrent_sync worlds picks clock0 clock1 service_name url endpoint N = Inr s
          \<and> probes_sync worlds picks service_name url endpoint N = Inr (durations, errors)
          \<and> summary_sync durations errors (float_sub clock1 clock0) = Inr s
          \<and> map_of s ''errors'' = Some (PyInt errors)
          \<and> errors + len durations = N)
       \<and> (\<exists>durations errors s.
            test_concurrent_async worlds picks' clock0 clock1 service_name url endpoint N = Inr s
          \<and> probes_async worlds picks' url endpoint N = Inr (durations, errors)
          \<and> summary_async durations errors (float_sub clock1 clock0) = Inr s
          \<and> map_of s ''errors'' = Some (PyInt errors)
          \<and> errors + len durations = N)"
proof
  have pos: "0 < N" using assms(1) by simp
  have tt: "durations \<noteq> [] \<longrightarrow> float_sub clock1 clock0 \<noteq> 0" for durations :: "rat list"
    using assms(3) by simp
  from probes_sync_returns[OF pos assms(2), of picks service_name]
  obtain durations errors where
    p: "probes_sync worlds picks service_name url endpoint N = Inr (durations, errors)"
    by blast
  from probes_sync_count[OF p] have n: "errors + len durations = N" by simp
  from summary_counts[OF probes_sync_errors_nonneg[OF p] tt] obtain s where s:
    "summary_sync durations errors (float_sub clock1 clock0) = Inr s"
    "map_of s ''errors'' = Some (PyInt errors)"
    by blast
  from s(1) p
  have "test_concurrent_sync worlds picks clock0 clock1 service_name url endpoint N = Inr s"
    by (simp add: test_concurrent_sync_def ebind_def)
  with p n s show "\<exists>durations errors s.
            test_concurrent_sync worlds picks clock0 clock1 service_name url endpoint N = Inr s
          \<and> probes_sync worlds picks service_name url endpoint N = Inr (durations, errors)
          \<and> summary_sync durations errors (float_sub clock1 clock0) = Inr s
          \<and> map_of s ''errors'' = Some (PyInt errors)
          \<and> errors + len durations = N"
    by blast
next
  have nonneg: "0 \<le> N" using assms(1) by simp
  have tt: "durations \<noteq> [] \<longrightarrow> float_sub clock1 clock0 \<noteq> 0" for durations :: "rat list"
    using assms(3) by simp
  from probes_async_returns[OF assms(2), of picks']
  obtain durations errors where
    p: "probes_async worlds picks' url endpoint N = Inr (durations, errors)"
    by blast
  from probes_async_count[OF p nonneg] have n: "errors + len durations = N" by simp
  from summary_counts[OF probes_async_errors_nonneg[OF p] tt] obtain s where s:
    "summary_async durations errors (float_sub clock1 clock0) = Inr s"
    "map_of s ''errors'' = Some (PyInt errors)"
    by blast
  from s(1) p
  have "test_concurrent_async worlds picks' clock0 clock1 service_name url endpoint N = Inr s"
    by (simp add: test_concurrent_async_def ebind_def)
  with p n s show "\<exists>durations errors s.
            test_concurrent_async worlds picks' clock0 clock1 service_name url endpoint N = Inr s
          \<and> probes_async worlds picks' url endpoint N = Inr (durations, errors)
          \<and> summary_async durations errors (float_sub clock1 clock0) = Inr s
          \<and> map_of s ''errors'' = Some (PyInt errors)
          \<and> errors + len durations = N"
    by blast
qed

theorem count_invariant_witness:
  "(1 :: int) \<le> 3 \<and> float_sub 14 10 \<noteq> 0
   \<and> (\<exists>s. test_concurrent_sync mixed_worlds [2, 0] 10 14 ''quart-native''
             ''http://localhost:5004'' ''/parallel'' 3 = Inr s
          \<and> probes_sync mixed_worlds [2, 0] ''quart-native'' ''http://localhost:5004''
              ''/parallel'' 3 = Inr ([3, 1], 1)
          \<and> summary_sync [3, 1] 1 4 = Inr s
          \<and> map_of s ''errors'' = Some (PyInt 1)
          \<and> 1 + len [3, 1 :: rat] = 3)
   \<and> (\<exists>s. test_concurrent_async mixed_worlds [1] 10 14 ''quart-native''
             ''http://localhost:5004'' ''/parallel'' 3 = Inr s
          \<and> probes_async mixed_worlds [1] ''http://localhost:5004'' ''/parallel'' 3
              = Inr ([1, 3], 1)
          \<and> summary_async [1, 3] 1 4 = Inr s
          \<and> map_of s ''errors'' = Some (PyInt 1)
          \<and> 1 + len [1, 3 :: rat] = 3)"
proof -
  have one: "(1 :: int) \<le> 3" and clocks: "float_sub 14 10 \<noteq> 0"
    by (simp_all add: sample_total_time)
  note w = count_invariant[OF one mixed_worlds_settle clocks,
      of "[2, 0]" "''quart-native''" "[1]"]
  from w obtain ds e s where sync:
    "test_concurrent_sync mixed_worlds [2, 0] 10 14 ''quart-native'' ''http://localhost:5004''
       ''/parallel'' 3 = Inr s"
    "probes_sync mixed_worlds [2, 0] ''quart-native'' ''http://localhost:5004'' ''/parallel'' 3
       = Inr (ds, e)"
    "summary_sync ds e (float_sub 14 10) = Inr s"
    "map_of s ''errors'' = Some (PyInt e)"
    "e + len ds = 3"
    by blast
  from sync(2) have v: "ds = [3, 1]" "e = 1" unfolding mixed_probes_sync by simp_all
  from w obtain ds' e' s' where async:
    "test_concurrent_async mixed_worlds [1] 10 14 ''quart-native'' ''http://localhost:5004''
       ''/parallel'' 3 = Inr s'"
    "probes_async mixed_worlds [1] ''http://localhost:5004'' ''/parallel'' 3 = Inr (ds', e')"
    "summary_async ds' e' (float_sub 14 10) = Inr s'"
    "map_of s' ''errors'' = Some (PyInt e')"
    "e' + len ds' = 3"
    by blast
  from async(2) have v': "ds' = [1, 3]" "e' = 1" unfolding mixed_probes_async by simp_all
  from sync async one clocks show ?thesis
    unfolding v v' sample_total_time by blast
qed

text \<open>
  Claim C4. For every run of a driver in which the list of successful durations is empty,
  the returned summary has exactly the entries \<^verbatim>\<open>total_time\<close>, \<^verbatim>\<open>errors\<close> and
  \<^verbatim>\<open>success_rate\<close>, the last being 0: no throughput and no latency entry. The error count
  is then the number of probes.
\<close>

theorem summary_without_success:
  assumes "0 < N"
  shows "(probes_sync worlds picks service_name url endpoint N = Inr ([], errors)
            \<longrightarrow> test_concurrent_sync worlds picks clock0 clock1 service_name url endpoint N
                  = Inr [(''total_time'', PyFloat (float_sub clock1 clock0)),
                         (''errors'', PyInt N),
                         (''success_rate'', PyInt 0)])
       \<and> (probes_async worlds picks' url endpoint N = Inr ([], errors)
            \<longrightarrow> test_concurrent_async worlds picks' clock0 clock1 service_name url endpoint N
                  = Inr [(''total_time'', PyFloat (float_sub clock1 clock0)),
                         (''errors'', PyInt N),
                         (''success_rate'', PyInt 0)])"
proof (intro conjI impI)
  assume p: "probes_sync worlds picks service_name url endpoint N = Inr ([], errors)"
  from probes_sync_count[OF p] have "errors = N" by (simp add: len_def)
  with p show "test_concurrent_sync worlds picks clock0 clock1 service_name url endpoint N
      = Inr [(''total_time'', PyFloat (float_sub clock1 clock0)), (''errors'', PyInt N),
             (''success_rate'', PyInt 0)]"
    by (simp add: test_concurrent_sync_def ebind_def summary_sync_def)
next
  assume p: "probes_async worlds picks' url endpoint N = Inr ([], errors)"
  from probes_async_count[OF p] assms have "errors = N" by (simp add: len_def)
  with p show "test_concurrent_async worlds picks' clock0 clock1 service_name url endpoint N
      = Inr [(''total_time'', PyFloat (float_sub clock1 clock0)), (''errors'', PyInt N),
             (''success_rate'', PyInt 0)]"
    by (simp add: test_concurrent_async_def ebind_def summary_async_def)
qed

theorem summary_without_success_witness:
  "(0 :: int) < 2
   \<and> probes_sync failing_worlds [1] ''flask-wsgi'' ''http://localhost:5001'' ''/slow'' 2
        = Inr ([], 2)
   \<and> probes_async failing_worlds [] ''http://localhost:5001'' ''/slow'' 2 = Inr ([], 2)
   \<and> test_concurrent_sync failing_worlds [1] 10 12 ''flask-wsgi'' ''http://localhost:5001''
        ''/slow'' 2
        = Inr [(''total_time'', PyFloat 2), (''errors'', PyInt 2), (''success_rate'', PyInt 0)]
   \<and> test_concurrent_async failing_worlds [] 10 12 ''flask-wsgi'' ''http://localhost:5001''
        ''/slow'' 2
        = Inr [(''total_time'', PyFloat 2), (''errors'', PyInt 2), (''success_rate'', PyInt 0)]"
proof -
  have two: "(0 :: int) < 2" by simp
  note w = summary_without_success[OF two,
      of failing_worlds "[1]" "''flask-wsgi''" "''http://localhost:5001''" "''/slow''" 2 10 12 "[]"]
  from w two failing_probes_sync failing_probes_async show ?thesis
    unfolding sample_total_time by simp
qed

text \<open>
  Claim C5. For every \<open>N > 0\<close> probes, the \<^verbatim>\<open>success_rate\<close> of the summary of either driver
  is the number of successful durations divided by that number plus the error count, which
  is the number of durations divided by \<open>N\<close>, when at least one probe succeeds, and is 0
  when none does. The quotient is the true division of two integers, rounded to a double.
  (The summary exists when the total time the driver measures is not zero, that is, when
  its two clock readings differ, since the throughput divides by the total time.)
\<close>

theorem success_rate_is_share_of_probes:
  assumes "0 < N"
    and "\<forall>i<nat N. \<forall>e. http_get (worlds i) (url @ endpoint) = Inl e \<longrightarrow> is_Exception e"
    and "float_sub clock1 clock0 \<noteq> 0"
  shows "(\<exists>durations errors s.
            probes_sync worlds picks service_name url endpoint N = Inr (durations, errors)
          \<and> test_concurrent_sync worlds picks clock0 clock1 service_name url endpoint N = Inr s
          \<and> map_of s ''success_rate''
              = Some (if durations = [] then PyInt 0
                      else PyFloat (fl (of_int (len durations) / of_int (len durations + errors))))
          \<and> len durations + errors = N)
       \<and> (\<exists>durations errors s.
            probes_async worlds picks' url endpoint N = Inr (durations, errors)
          \<and> test_concurrent_async worlds picks' clock0 clock1 service_name url endpoint N = Inr s
          \<and> map_of s ''success_rate''
              = Some (if durations = [] then PyInt 0
                      else PyFloat (fl (of_int (len durations) / of_int (len durations + errors))))
          \<and> len durations + errors = N)"
proof
  have tt: "durations \<noteq> [] \<longrightarrow> float_sub clock1 clock0 \<noteq> 0" for durations :: "rat list"
    using assms(3) by simp
  from probes_sync_returns[OF assms(1,2), of picks service_name]
  obtain durations errors where
    p: "probes_sync worlds picks service_name url endpoint N = Inr (durations, errors)"
    by blast
  from probes_sync_count[OF p] have n: "len durations + errors = N" by simp
  from summary_counts[OF probes_sync_errors_nonneg[OF p] tt] obtain s where
    "summary_sync durations errors (float_sub clock1 clock0) = Inr s"
    "map_of s ''success_rate''
       = Some (if durations = [] then PyInt 0
               else PyFloat (fl (of_int (len durations) / of_int (len durations + errors))))"
    by blast
  moreover from this(1) p
  have "test_concurrent_sync worlds picks clock0 clock1 service_name url endpoint N = Inr s"
    by (simp add: test_concurrent_sync_def ebind_def)
  ultimately show "\<exists>durations errors s.
            probes_sync worlds picks service_name url endpoint N = Inr (durations, errors)
          \<and> test_concurrent_sync worlds picks clock0 clock1 service_name url endpoint N = Inr s
          \<and> map_of s ''success_rate''
              = Some (if durations = [] then PyInt 0
                      else PyFloat (fl (of_int (len durations) / of_int (len durations + errors))))
          \<and> len durations + errors = N"
    using p n by blast
next
  have tt: "durations \<noteq> [] \<longrightarrow> float_sub clock1 clock0 \<noteq> 0" for durations :: "rat list"
    using assms(3) by simp
  from probes_async_returns[OF assms(2), of picks']
  obtain durations errors where
    p: "probes_async worlds picks' url endpoint N = Inr (durations, errors)"
    by blast
  from probes_async_count[OF p] assms(1) have n: "len durations + errors = N" by simp
  from summary_counts[OF probes_async_errors_nonneg[OF p] tt] obtain s where
    "summary_async durations errors (float_sub clock1 clock0) = Inr s"
    "map_of s ''success_rate''
       = Some (if durations = [] then PyInt 0
               else PyFloat (fl (of_int (len durations) / of_int (len durations + errors))))"
    by blast
  moreover from this(1) p
  have "test_concurrent_async worlds picks' clock0 clock1 service_name url endpoint N = Inr s"
    by (simp add: test_concurrent_async_def ebind_def)
  ultimately show "\<exists>durations errors s.
            probes_async worlds picks' url endpoint N = Inr (durations, errors)
          \<and> test_concurrent_async worlds picks' clock0 clock1 service_name url endpoint N = Inr s
          \<and> map_of s ''success_rate''
              = Some (if durations = [] then PyInt 0
                      else PyFloat (fl (of_int (len durations) / of_int (len durations + errors))))
          \<and> len durations + errors = N"
    using p n by blast
qed

theorem success_rate_is_share_of_probes_witness:
  "(0 :: int) < 3 \<and> float_sub 14 10 \<noteq> 0
   \<and> (\<exists>durations errors s.
         probes_sync mixed_worlds [2, 0] ''quart-native'' ''http://localhost:5004'' ''/parallel'' 3
           = Inr (durations, errors)
       \<and> test_concurrent_sync mixed_worlds [2, 0] 10 14 ''quart-native'' ''http://localhost:5004''
           ''/parallel'' 3 = Inr s
       \<and> map_of s ''success_rate'' = Some (PyFloat (6004799503160661 / 9007199254740992))
       \<and> len durations + errors = 3)
   \<and> (\<exists>durations errors s.
         probes_async mixed_worlds [1] ''http://localhost:5004'' ''/parallel'' 3
           = Inr (durations, errors)
       \<and> test_concurrent_async mixed_worlds [1] 10 14 ''quart-native'' ''http://localhost:5004''
           ''/parallel'' 3 = Inr s
       \<and> map_of s ''success_rate'' = Some (PyFloat (6004799503160661 / 9007199254740992))
       \<and> len durations + errors = 3)"
proof -
  have three: "(0 :: int) < 3" and clocks: "float_sub 14 10 \<noteq> 0"
    by (simp_all add: sample_total_time)
  note w = success_rate_is_share_of_probes[OF three mixed_worlds_settle clocks,
      of "[2, 0]" "''quart-native''" "[1]"]
  from w obtain ds e s where sync:
    "probes_sync mixed_worlds [2, 0] ''quart-native'' ''http://localhost:5004'' ''/parallel'' 3
       = Inr (ds, e)"
    "test_concurrent_sync mixed_worlds [2, 0] 10 14 ''quart-native'' ''http://localhost:5004''
       ''/parallel'' 3 = Inr s"
    "map_of s ''success_rate''
       = Some (if ds = [] then PyInt 0 else PyFloat (fl (of_int (len ds) / of_int (len ds + e))))"
    "len ds + e = 3"
    by blast
  from sync(1) have "ds = [3, 1] \<and> e = 1" unfolding mixed_probes_sync by simp
  with sync(3)
  have sr: "map_of s ''success_rate'' = Some (PyFloat (6004799503160661 / 9007199254740992))"
    by (simp add: len_def fl_samples)
  from w obtain ds' e' s' where async:
    "probes_async mixed_worlds [1] ''http://localhost:5004'' ''/parallel'' 3 = Inr (ds', e')"
    "test_concurrent_async mixed_worlds [1] 10 14 ''quart-native'' ''http://localhost:5004''
       ''/parallel'' 3 = Inr s'"
    "map_of s' ''success_rate''
       = Some (if ds' = [] then PyInt 0
               else PyFloat (fl (of_int (len ds') / of_int (len ds' + e'))))"
    "len ds' + e' = 3"
    by blast
  from async(1) have "ds' = [1, 3] \<and> e' = 1" unfolding mixed_probes_async by simp
  with async(3)
  have sr': "map_of s' ''success_rate'' = Some (PyFloat (6004799503160661 / 9007199254740992))"
    by (simp add: len_def fl_samples)
  from sync(1,2,4) sr async(1,2,4) sr' three clocks show ?thesis by blast
qed

text \<open>
  Claim C9. The thread-pool driver and the cooperative-task driver agree as aggregators:
  when their collection loops end with the same multiset of successful durations and the
  same error count, and they measure the same total time, they return the same result,
  every entry of the summary equal.
\<close>

theorem drivers_agree:
  assumes "probes_sync worlds picks service_name url endpoint N = Inr (durations, errors)"
    and "probes_async worlds' picks' url' endpoint' N' = Inr (durations', errors')"
    and "mset durations = mset durations'"
    and "errors = errors'"
    and "float_sub clock1 clock0 = float_sub clock1' clock0'"
  shows "test_concurrent_sync worlds picks clock0 clock1 service_name url endpoint N
       = test_concurrent_async worlds' picks' clock0' clock1' service_name' url' endpoint' N'"
  using assms summary_sync_cong_mset[OF assms(3), of errors' "float_sub clock1' clock0'"]
  by (simp add: test_concurrent_sync_def test_concurrent_async_def ebind_def summary_async_eq)

theorem drivers_agree_witness:
  "probes_sync mixed_worlds [2, 0] ''quart-native'' ''http://localhost:5004'' ''/parallel'' 3
     = Inr ([3, 1], 1)
   \<and> probes_async mixed_worlds [1] ''http://localhost:5004'' ''/parallel'' 3 = Inr ([1, 3], 1)
   \<and> mset [3, 1 :: rat] = mset [1, 3] \<and> float_sub 14 10 = float_sub 24 20
   \<and> test_concurrent_sync mixed_worlds [2, 0] 10 14 ''quart-native'' ''http://localhost:5004''
        ''/parallel'' 3
      = test_concurrent_async mixed_worlds [1] 20 24 ''quart-native'' ''http://localhost:5004''
        ''/parallel'' 3
   \<and> test_concurrent_sync mixed_worlds [2, 0] 10 14 ''quart-native'' ''http://localhost:5004''
        ''/parallel'' 3
      = Inr [(''total_time'', PyFloat 4), (''requests_per_second'', PyFloat (1 / 2)),
             (''mean_latency'', PyFloat 2), (''median_latency'', PyFloat 2),
             (''p95_latency'', PyFloat (5291729562160333 / 1125899906842624)),
             (''p99_latency'', PyFloat (5561945539802563 / 1125899906842624)),
             (''min_latency'', PyFloat 1), (''max_latency'', PyFloat 3),
             (''errors'', PyInt 1),
             (''success_rate'', PyFloat (6004799503160661 / 9007199254740992))]"
proof -
  have m: "mset [3, 1 :: rat] = mset [1, 3]" by simp
  have c: "float_sub 14 10 = float_sub 24 20" by (simp only: sample_total_time)
  note w = drivers_agree[OF mixed_probes_sync mixed_probes_async m refl c, of "''quart-native''"]
  have "test_concurrent_sync mixed_worlds [2, 0] 10 14 ''quart-native'' ''http://localhost:5004''
        ''/parallel'' 3 = summary_sync [3, 1] 1 4"
    unfolding test_concurrent_sync_def mixed_probes_sync ebind_def sample_total_time by simp
  with w have "test_concurrent_sync mixed_worlds [2, 0] 10 14 ''quart-native''
        ''http://localhost:5004'' ''/parallel'' 3
      = test_concurrent_async mixed_worlds [1] 20 24 ''quart-native'' ''http://localhost:5004''
        ''/parallel'' 3
    \<and> test_concurrent_sync mixed_worlds [2, 0] 10 14 ''quart-native''
        ''http://localhost:5004'' ''/parallel'' 3
      = Inr [(''total_time'', PyFloat 4), (''requests_per_second'', PyFloat (1 / 2)),
             (''mean_latency'', PyFloat 2), (''median_latency'', PyFloat 2),
             (''p95_latency'', PyFloat (5291729562160333 / 1125899906842624)),
             (''p99_latency'', PyFloat (5561945539802563 / 1125899906842624)),
             (''min_latency'', PyFloat 1), (''max_latency'', PyFloat 3),
             (''errors'', PyInt 1),
             (''success_rate'', PyFloat (6004799503160661 / 9007199254740992))]"
    using mixed_summary by (simp only:)
  with m c mixed_probes_sync mixed_probes_async show ?thesis by blast
qed

text \<open>
  Claim C3. The single-request probe classifies every outcome: a response with status code
  200 gives a result with \<^verbatim>\<open>success\<close> true, the duration and the status code; a response
  with any other status code gives \<^verbatim>\<open>success\<close> false, the duration and the status code; a
  transport failure, as every exception deriving from \<^verbatim>\<open>Exception\<close>, gives \<^verbatim>\<open>success\<close>
  false, the duration and the message of the exception under \<^verbatim>\<open>error\<close>, and is not raised
  to the caller (the probe returns). The duration is measured in the three cases: it is
  the difference of the two clock readings, a subtraction of doubles.
\<close>

theorem probe_classification:
  "(http_get w (url @ endpoint) = Inr 200
      \<longrightarrow> test_single_request w service_name url endpoint
            = Inr \<lparr>success = True, duration = float_sub (clock_after w) (clock_before w),
                   status_code = Some 200, error = None\<rparr>)
   \<and> (http_get w (url @ endpoint) = Inr code \<and> code \<noteq> 200
      \<longrightarrow> test_single_request w service_name url endpoint
            = Inr \<lparr>success = False, duration = float_sub (clock_after w) (clock_before w),
                   status_code = Some code, error = None\<rparr>)
   \<and> (http_get w (url @ endpoint) = Inl e \<and> is_Exception e
      \<longrightarrow> test_single_request w service_name url endpoint
            = Inr \<lparr>success = False, duration = float_sub (clock_after w) (clock_before w),
                   status_code = None, error = Some (str_exn e)\<rparr>)"
  by (simp add: test_single_request_def Let_def)

theorem probe_classification_witness:
  "test_single_request (mixed_worlds 0) ''quart-native'' ''http://localhost:5004'' ''/parallel''
     = Inr \<lparr>success = True, duration = 1, status_code = Some 200, error = None\<rparr>
   \<and> test_single_request (failing_worlds 0) ''flask-wsgi'' ''http://localhost:5001'' ''/slow''
     = Inr \<lparr>success = False, duration = 1, status_code = Some 503, error = None\<rparr>
   \<and> test_single_request (failing_worlds 1) ''flask-wsgi'' ''http://localhost:5001'' ''/slow''
     = Inr \<lparr>success = False, duration = 2, status_code = None, error = Some ''timed out''\<rparr>"
  using
    probe_classification[of "mixed_worlds 0" "''http://localhost:5004''" "''/parallel''"
      "''quart-native''" 200 "TransportError []"]
    probe_classification[of "failing_worlds 0" "''http://localhost:5001''" "''/slow''"
      "''flask-wsgi''" 503 "TransportError []"]
    probe_classification[of "failing_worlds 1" "''http://localhost:5001''" "''/slow''"
      "''flask-wsgi''" 0 "TransportError ''timed out''"]
  by (simp add: float_sub_def)

text \<open>
  Claim C8. The readiness gate polls the health endpoint with one second between attempts
  in every iteration, until a response 200 or the timeout, and then returns true or false.
  The loop does not do so on a response other than 200: the sleep of one second stands in
  the exception handler only, and after such a response the next request follows at once.
  The first run below meets a response 503 and then a response 200: two requests and no
  sleep between them. The second meets a refused connection first: the sleep is there.
\<close>

theorem wait_for_service_retries_at_once:
  "wait_for_service 0 [(1 / 100, Inr 503), (1 / 100, Inr 200)] 60
     = (Some (Inr True), [Request, Request])
   \<and> wait_for_service 0 [(1 / 100, Inl (TransportError ''connection refused'')), (1 / 100, Inr 200)] 60
     = (Some (Inr True), [Request, Sleep 1, Request])"
  by (simp add: wait_for_service_def float_sub_def fl_samples)

text \<open>
  Claim C6 (amended). For every sample of at least 2 durations on a grid (multiples of one
  power of two \<open>2 ^ k\<close>, of at most 44 bits, as the differences of two readings of
  \<^verbatim>\<open>time.time()\<close> are, with \<open>k = -22\<close>), the p95 latency of the summary is less than or equal
  to its p99 latency. Both drivers' aggregations return the same summary; it exists when
  the total time is not zero (the throughput divides by it) and the error count is not
  negative. The bound \<open>k \<le> 900\<close> keeps the interpolation below the largest double.
\<close>

theorem p95_le_p99:
  assumes "2 \<le> length durations" "total_time \<noteq> 0" "0 \<le> errors"
    and "\<forall>d \<in> set durations. on_grid k d" and "- 1074 \<le> k" and "k \<le> 900"
  shows "\<exists>s p95 p99.
           summary_sync durations errors total_time = Inr s
         \<and> summary_async durations errors total_time = Inr s
         \<and> map_of s ''p95_latency'' = Some (PyFloat p95)
         \<and> map_of s ''p99_latency'' = Some (PyFloat p99)
         \<and> p95 \<le> p99"
proof -
  have "exact_cut_point (sort durations) 20 19 \<le> exact_cut_point (sort durations) 100 99"
    using assms(1) by (intro exact_cut_point_95_le_99) simp_all
  then have "cut_point (sort durations) 20 19 \<le> cut_point (sort durations) 100 99"
    unfolding percentiles_on_grid[OF assms(1,4,5)] by (rule fl_mono)
  with summary_percentiles[OF assms(1,2,3)] show ?thesis by blast
qed

theorem p95_le_p99_witness:
  "2 \<le> length [1 / 4, 1 / 2 :: rat] \<and> (1 :: rat) \<noteq> 0 \<and> (0 :: int) \<le> 0
   \<and> on_grid (- 22) (1 / 4) \<and> on_grid (- 22) (1 / 2)
   \<and> (- 1074 :: int) \<le> - 22 \<and> (- 22 :: int) \<le> 900
   \<and> (\<exists>s p95 p99. summary_sync [1 / 4, 1 / 2] 0 1 = Inr s
         \<and> summary_async [1 / 4, 1 / 2] 0 1 = Inr s
         \<and> map_of s ''p95_latency'' = Some (PyFloat p95)
         \<and> map_of s ''p99_latency'' = Some (PyFloat p99)
         \<and> p95 \<le> p99)"
  using p95_le_p99[of "[1 / 4, 1 / 2]" 1 0 "- 22"] quarter_on_grid by simp

text \<open>
  The claim as stated, for every sample, fails on the sample \<open>[0.7, 0.7]\<close> (the double
  nearest to \<open>0.7\<close>, twice): the p95 latency is \<open>0.7\<close> and the p99 latency is the double
  just below, \<open>0.6999999999999998\<close>. The weights of the two interpolations are \<open>-17, 37\<close>
  and \<open>-197, 297\<close>, and the products are rounded.
\<close>

theorem p95_le_p99_counterexample:
  "(3152519739159347 / 4503599627370496 :: rat) \<in> doubles
   \<and> summary_sync [3152519739159347 / 4503599627370496, 3152519739159347 / 4503599627370496] 0 1 =
     Inr [(''total_time'', PyFloat 1), (''requests_per_second'', PyFloat 2),
          (''mean_latency'', PyFloat (3152519739159347 / 4503599627370496)),
          (''median_latency'', PyFloat (3152519739159347 / 4503599627370496)),
          (''p95_latency'', PyFloat (3152519739159347 / 4503599627370496)),
          (''p99_latency'', PyFloat (6305039478318693 / 9007199254740992)),
          (''min_latency'', PyFloat (3152519739159347 / 4503599627370496)),
          (''max_latency'', PyFloat (3152519739159347 / 4503599627370496)),
          (''errors'', PyInt 0), (''success_rate'', PyFloat 1)]
   \<and> (6305039478318693 / 9007199254740992 :: rat) < 3152519739159347 / 4503599627370496"
  using constant_sample_double summary_of_constant_sample by simp

text \<open>
  Claim C10 (amended). For every sample of at least 2 durations on a grid (as in claim C6),
  the p95 and the p99 latency of the summary are at least its min latency; the p95
  latency is at most the max latency when the sample has at least 19 elements, and the
  p99 latency when it has at least 99.
\<close>

theorem percentiles_within_range:
  assumes "2 \<le> length durations" "total_time \<noteq> 0" "0 \<le> errors"
    and "\<forall>d \<in> set durations. on_grid k d" and "- 1074 \<le> k" and "k \<le> 900"
  shows "\<exists>s p95 p99 lo hi.
           summary_sync durations errors total_time = Inr s
         \<and> summary_async durations errors total_time = Inr s
         \<and> map_of s ''p95_latency'' = Some (PyFloat p95)
         \<and> map_of s ''p99_latency'' = Some (PyFloat p99)
         \<and> map_of s ''min_latency'' = Some (PyFloat lo)
         \<and> map_of s ''max_latency'' = Some (PyFloat hi)
         \<and> lo \<le> p95 \<and> lo \<le> p99
         \<and> (19 \<le> length durations \<longrightarrow> p95 \<le> hi)
         \<and> (99 \<le> length durations \<longrightarrow> p99 \<le> hi)"
proof -
  let ?s = "sort durations"
  have ne: "durations \<noteq> []" using assms(1) by auto
  have two: "2 \<le> length ?s" using assms(1) by simp
  have lo: "Min (set durations) = ?s ! 0" using sort_first_Min[OF ne] by simp
  have hi: "Max (set durations) = ?s ! (length ?s - 1)" using sort_last_Max[OF ne] by simp
  note d = extremes_on_grid[OF ne assms(4,5)]
  have "Min (set durations) \<le> exact_cut_point ?s 20 19"
    unfolding lo by (rule exact_cut_point_95_lower[OF sorted_sort two])
  then have "Min (set durations) \<le> cut_point ?s 20 19"
    unfolding percentiles_on_grid[OF assms(1,4,5)] by (rule fl_ge_double[OF d(1)])
  moreover have "Min (set durations) \<le> exact_cut_point ?s 100 99"
    unfolding lo by (rule exact_cut_point_99_lower[OF sorted_sort two])
  then have "Min (set durations) \<le> cut_point ?s 100 99"
    unfolding percentiles_on_grid[OF assms(1,4,5)] by (rule fl_ge_double[OF d(1)])
  moreover have "19 \<le> length durations \<longrightarrow> cut_point ?s 20 19 \<le> Max (set durations)"
  proof
    assume "19 \<le> length durations"
    then have "19 \<le> length ?s" by simp
    from exact_cut_point_95_upper[OF sorted_sort this]
    have "exact_cut_point ?s 20 19 \<le> Max (set durations)" unfolding hi .
    then show "cut_point ?s 20 19 \<le> Max (set durations)"
      unfolding percentiles_on_grid[OF assms(1,4,5)] by (rule fl_le_double[OF d(2)])
  qed
  moreover have "99 \<le> length durations \<longrightarrow> cut_point ?s 100 99 \<le> Max (set durations)"
  proof
    assume "99 \<le> length durations"
    then have "99 \<le> length ?s" by simp
    from exact_cut_point_99_upper[OF sorted_sort this]
    have "exact_cut_point ?s 100 99 \<le> Max (set durations)" unfolding hi .
    then show "cut_point ?s 100 99 \<le> Max (set durations)"
      unfolding percentiles_on_grid[OF assms(1,4,5)] by (rule fl_le_double[OF d(2)])
  qed
  ultimately show ?thesis using summary_percentiles[OF assms(1,2,3)] by blast
qed

theorem percentiles_within_range_witness:
  "2 \<le> length (map rat_of_int [1..200]) \<and> (1 :: rat) \<noteq> 0 \<and> (0 :: int) \<le> 0
   \<and> list_all (on_grid 0) (map rat_of_int [1..200])
   \<and> (- 1074 :: int) \<le> 0 \<and> (0 :: int) \<le> 900
   \<and> 19 \<le> length (map rat_of_int [1..200]) \<and> 99 \<le> length (map rat_of_int [1..200])
   \<and> (\<exists>s p95 p99 lo hi.
           summary_sync (map rat_of_int [1..200]) 0 1 = Inr s
         \<and> summary_async (map rat_of_int [1..200]) 0 1 = Inr s
         \<and> map_of s ''p95_latency'' = Some (PyFloat p95)
         \<and> map_of s ''p99_latency'' = Some (PyFloat p99)
         \<and> map_of s ''min_latency'' = Some (PyFloat lo)
         \<and> map_of s ''max_latency'' = Some (PyFloat hi)
         \<and> lo \<le> p95 \<and> lo \<le> p99 \<and> p95 \<le> hi \<and> p99 \<le> hi)"
proof -
  have g: "list_all (on_grid 0) (map rat_of_int [1..200])"
    using sample_on_grid by (simp only: list_all_iff)
  have h: "2 \<le> length (map rat_of_int [1..200])" "(1 :: rat) \<noteq> 0" "(0 :: int) \<le> 0"
    "(- 1074 :: int) \<le> 0" "(0 :: int) \<le> 900"
    by simp_all
  from percentiles_within_range[OF h(1,2,3) sample_on_grid h(4,5)] g show ?thesis
    unfolding sample_length by simp
qed

text \<open>
  The claim as stated fails on the sample \<open>[1, 2, 3]\<close>: both percentiles exceed the max
  latency 3 (they are the doubles nearest to \<open>3.8\<close> and \<open>3.96\<close>).
\<close>

theorem percentiles_within_range_counterexample:
  "summary_sync [1, 2, 3] 0 1 =
     Inr [(''total_time'', PyFloat 1), (''requests_per_second'', PyFloat 3),
          (''mean_latency'', PyFloat 2), (''median_latency'', PyFloat 2),
          (''p95_latency'', PyFloat (4278419646001971 / 1125899906842624)),
          (''p99_latency'', PyFloat (4458563631096791 / 1125899906842624)),
          (''min_latency'', PyFloat 1), (''max_latency'', PyFloat 3),
          (''errors'', PyInt 0), (''success_rate'', PyFloat 1)]
   \<and> (3 :: rat) < 4278419646001971 / 1125899906842624
   \<and> (3 :: rat) < 4458563631096791 / 1125899906842624"
  using summary_of_three by simp

text \<open>
  Claim C1 (amended). For every list of successful durations with at least 2 elements, the
  p95 latency is the cut point of index 18 among the 19 cut points of
  \<^verbatim>\<open>statistics.quantiles(durations, n=20)\<close>, and the p99 latency the cut point of index 98
  among the 99 of \<^verbatim>\<open>statistics.quantiles(durations, n=100)\<close>. The cut point is a linear
  interpolation between two neighbours of the sorted sample: with \<open>ld\<close> the sample size,
  \<open>j\<close> the floor of \<open>19 * (ld + 1) / 20\<close> (for p99, of \<open>99 * (ld + 1) / 100\<close>) clamped to
  \<open>1 .. ld - 1\<close> and \<open>delta = 19 * (ld + 1) - 20 * j\<close>, it is
  \<open>(sorted[j - 1] * (20 - delta) + sorted[j] * delta) / 20\<close> in double arithmetic, the two
  products, the sum and the quotient each rounded. (The durations are at most \<open>2 ^ 1000\<close>,
  which keeps the interpolation below the largest double.)
\<close>

theorem percentiles_are_interpolated_cut_points:
  assumes "2 \<le> length durations" "total_time \<noteq> 0" "0 \<le> errors"
    and "\<forall>d \<in> set durations. \<bar>d\<bar> \<le> 2 ^ 1000"
  shows "\<exists>s q20 q100.
           summary_sync durations errors total_time = Inr s
         \<and> summary_async durations errors total_time = Inr s
         \<and> quantiles durations 20 = Inr q20 \<and> length q20 = 19
         \<and> map_of s ''p95_latency'' = Some (PyFloat (q20 ! 18))
         \<and> quantiles durations 100 = Inr q100 \<and> length q100 = 99
         \<and> map_of s ''p99_latency'' = Some (PyFloat (q100 ! 98))
         \<and> (let sorted = sort durations; ld = len durations;
                j = max 1 (min (ld - 1) \<lfloor>of_int (19 * (ld + 1)) / (20 :: rat)\<rfloor>);
                delta = 19 * (ld + 1) - j * 20
            in q20 ! 18 =
                 fl (float_add (float_mul (sorted ! nat (j - 1)) (float_of_int (20 - delta)))
                               (float_mul (sorted ! nat j) (float_of_int delta))
                     / float_of_int 20))
         \<and> (let sorted = sort durations; ld = len durations;
                j = max 1 (min (ld - 1) \<lfloor>of_int (99 * (ld + 1)) / (100 :: rat)\<rfloor>);
                delta = 99 * (ld + 1) - j * 100
            in q100 ! 98 =
                 fl (float_add (float_mul (sorted ! nat (j - 1)) (float_of_int (100 - delta)))
                               (float_mul (sorted ! nat j) (float_of_int delta))
                     / float_of_int 100))"
proof -
  let ?s = "sort durations"
  have ld: "2 \<le> len durations" using assms(1) by (simp add: len_def)
  have q20: "quantiles durations 20 = Inr (map (cut_point ?s 20) [1..19])"
    using quantiles_value[OF _ assms(1), of 20] by simp
  have q100: "quantiles durations 100 = Inr (map (cut_point ?s 100) [1..99])"
    using quantiles_value[OF _ assms(1), of 100] by simp
  have n20: "map (cut_point ?s 20) [1..19] ! 18 = cut_point ?s 20 19" by simp
  have n100: "map (cut_point ?s 100) [1..99] ! 98 = cut_point ?s 100 99" by simp
  have j20: "cut_index (len durations) 20 19
               = max 1 (min (len durations - 1) \<lfloor>of_int (19 * (len durations + 1)) / (20 :: rat)\<rfloor>)"
    using cut_index_floor[OF ld, of 20 19] by simp
  have j100: "cut_index (len durations) 100 99
               = max 1 (min (len durations - 1) \<lfloor>of_int (99 * (len durations + 1)) / (100 :: rat)\<rfloor>)"
    using cut_index_floor[OF ld, of 100 99] by simp
  have i20: "cut_point ?s 20 19 =
     (let sorted = sort durations; ld = len durations;
          j = max 1 (min (ld - 1) \<lfloor>of_int (19 * (ld + 1)) / (20 :: rat)\<rfloor>);
          delta = 19 * (ld + 1) - j * 20
      in fl (float_add (float_mul (sorted ! nat (j - 1)) (float_of_int (20 - delta)))
                       (float_mul (sorted ! nat j) (float_of_int delta))
             / float_of_int 20))"
    unfolding cut_point_def cut_delta_def Let_def len_sort j20 by (rule refl)
  have i100: "cut_point ?s 100 99 =
     (let sorted = sort durations; ld = len durations;
          j = max 1 (min (ld - 1) \<lfloor>of_int (99 * (ld + 1)) / (100 :: rat)\<rfloor>);
          delta = 99 * (ld + 1) - j * 100
      in fl (float_add (float_mul (sorted ! nat (j - 1)) (float_of_int (100 - delta)))
                       (float_mul (sorted ! nat j) (float_of_int delta))
             / float_of_int 100))"
    unfolding cut_point_def cut_delta_def Let_def len_sort j100 by (rule refl)
  from summary_percentiles[OF assms(1,2,3)] obtain s where s:
    "summary_sync durations errors total_time = Inr s"
    "summary_async durations errors total_time = Inr s"
    "map_of s ''p95_latency'' = Some (PyFloat (cut_point ?s 20 19))"
    "map_of s ''p99_latency'' = Some (PyFloat (cut_point ?s 100 99))"
    by blast
  have l20: "length (map (cut_point ?s 20) [1..19]) = 19" by simp
  have l100: "length (map (cut_point ?s 100) [1..99]) = 99" by simp
  have e20: "(let sorted = sort durations; ld = len durations;
                j = max 1 (min (ld - 1) \<lfloor>of_int (19 * (ld + 1)) / (20 :: rat)\<rfloor>);
                delta = 19 * (ld + 1) - j * 20
            in map (cut_point ?s 20) [1..19] ! 18 =
                 fl (float_add (float_mul (sorted ! nat (j - 1)) (float_of_int (20 - delta)))
                               (float_mul (sorted ! nat j) (float_of_int delta))
                     / float_of_int 20))"
    unfolding n20 using i20 by (simp only: Let_def)
  have e100: "(let sorted = sort durations; ld = len durations;
                j = max 1 (min (ld - 1) \<lfloor>of_int (99 * (ld + 1)) / (100 :: rat)\<rfloor>);
                delta = 99 * (ld + 1) - j * 100
            in map (cut_point ?s 100) [1..99] ! 98 =
                 fl (float_add (float_mul (sorted ! nat (j - 1)) (float_of_int (100 - delta)))
                               (float_mul (sorted ! nat j) (float_of_int delta))
                     / float_of_int 100))"
    unfolding n100 using i100 by (simp only: Let_def)
  from s(3) have p95: "map_of s ''p95_latency'' = Some (PyFloat (map (cut_point ?s 20) [1..19] ! 18))"
    unfolding n20 .
  from s(4) have p99: "map_of s ''p99_latency'' = Some (PyFloat (map (cut_point ?s 100) [1..99] ! 98))"
    unfolding n100 .
  from s(1,2) q20 l20 p95 q100 l100 p99 e20 e100 show ?thesis by blast
qed

theorem percentiles_are_interpolated_cut_points_witness:
  "2 \<le> length (map rat_of_int [1..200]) \<and> (1 :: rat) \<noteq> 0 \<and> (0 :: int) \<le> 0
   \<and> list_all (\<lambda>d. \<bar>d\<bar> \<le> 2 ^ 1000) (map rat_of_int [1..200])
   \<and> (\<exists>s q20 q100.
           summary_sync (map rat_of_int [1..200]) 0 1 = Inr s
         \<and> summary_async (map rat_of_int [1..200]) 0 1 = Inr s
         \<and> quantiles (map rat_of_int [1..200]) 20 = Inr q20 \<and> length q20 = 19
         \<and> map_of s ''p95_latency'' = Some (PyFloat (q20 ! 18))
         \<and> quantiles (map rat_of_int [1..200]) 100 = Inr q100 \<and> length q100 = 99
         \<and> map_of s ''p99_latency'' = Some (PyFloat (q100 ! 98))
         \<and> max 1 (min (200 - 1) \<lfloor>of_int (19 * (200 + 1)) / (20 :: rat)\<rfloor>) = 190
         \<and> max 1 (min (200 - 1) \<lfloor>of_int (99 * (200 + 1)) / (100 :: rat)\<rfloor>) = 198
         \<and> q20 ! 18 = 3359227925181235 / 17592186044416
         \<and> q100 ! 98 = 875167275244585 / 4398046511104)"
proof -
  have b: "list_all (\<lambda>d. \<bar>d\<bar> \<le> 2 ^ 1000) (map rat_of_int [1..200])"
    using sample_bounded by (simp only: list_all_iff)
  have h: "2 \<le> length (map rat_of_int [1..200])" "(1 :: rat) \<noteq> 0" "(0 :: int) \<le> 0"
    by simp_all
  have ld: "len (map rat_of_int [1..200]) = 200" by (simp add: len_def)
  have f: "\<lfloor>3819 / 20 :: rat\<rfloor> = 190" "\<lfloor>19899 / 100 :: rat\<rfloor> = 198"
    by (simp_all add: floor_eq_iff)
  from percentiles_are_interpolated_cut_points[OF h sample_bounded] b show ?thesis
    unfolding sample_sorted ld
    by (simp add: Let_def float_add_def float_mul_def float_of_int_def f fl_samples)
qed

text \<open>
  The claim as stated (a rank-based scheme without interpolation returns an element of the
  sample) fails on the sample \<open>[1, 2]\<close>: the percentiles are the doubles nearest to \<open>2.85\<close>
  and \<open>2.97\<close>, and neither is a duration of the sample.
\<close>

theorem percentiles_are_interpolated_cut_points_counterexample:
  "summary_sync [1, 2] 0 1 =
     Inr [(''total_time'', PyFloat 1), (''requests_per_second'', PyFloat 2),
          (''mean_latency'', PyFloat (3 / 2)), (''median_latency'', PyFloat (3 / 2)),
          (''p95_latency'', PyFloat (6417629469002957 / 2251799813685248)),
          (''p99_latency'', PyFloat (6687845446645187 / 2251799813685248)),
          (''min_latency'', PyFloat 1), (''max_latency'', PyFloat 2),
          (''errors'', PyInt 0), (''success_rate'', PyFloat 1)]
   \<and> 6417629469002957 / 2251799813685248 \<notin> set [1, 2 :: rat]
   \<and> 6687845446645187 / 2251799813685248 \<notin> set [1, 2 :: rat]"
  using summary_of_two by simp

end
